theory Spec2Isabelle
  imports Main "HOL-Library.Word"
begin

section \<open>Data model of \<open>be/src/runtime/mem-tracker.cc\<close>\<close>

text \<open>
  \<open>int64_t\<close> and \<open>uint64_t\<close> values are 64-bit words. On words \<open><\<close> and \<open>\<le>\<close> compare
  unsigned, \<open><s\<close> and \<open>\<le>s\<close> compare signed, and \<open>+\<close> and \<open>-\<close> wrap around.
\<close>

type_synonym int64_t = "64 word"

text \<open>Objects live in a store and are named by their address; \<open>None\<close> is the null pointer.\<close>

type_synonym addr = nat

text \<open>
  \<open>TUniqueId\<close> is the Thrift struct of two \<open>i64\<close> fields that \<open>test-env.cc\<close> fills in as
  \<open>query_id.hi\<close> and \<open>query_id.lo\<close>. Its generated default constructor sets both to zero,
  which is the value of a \<open>query_id_\<close> member that no constructor of \<open>MemTracker\<close> mentions.
\<close>

record TUniqueId =
  hi :: int64_t
  lo :: int64_t

definition TUniqueId_default :: TUniqueId where
  "TUniqueId_default = \<lparr>hi = 0, lo = 0\<rparr>"

text \<open>
  What can go wrong without a result: a \<open>DCHECK\<close> that does not hold (every \<open>DCHECK\<close> is
  taken as checked, as in a debug build), a pointer that is null or dangling where it is
  dereferenced, and \<open>std::list::erase\<close> on an iterator that is not dereferenceable.
\<close>

datatype fault = DCheckFailure | InvalidPointer | InvalidIterator

text \<open>
  The members of \<open>MemTracker\<close>. \<open>consumption\<close> is the current value of the counter behind
  \<open>consumption_\<close>; \<open>consumption_metric\<close> is \<open>None\<close> for a null \<open>consumption_metric_\<close> and
  otherwise the value the gauge shows now. \<open>child_tracker_it\<close> is the iterator into the
  parent's \<open>child_trackers_\<close>: \<open>Some a\<close> points at the list node holding \<open>a\<close>, \<open>None\<close> is
  \<open>end()\<close>. The optional metrics are \<open>None\<close> while their pointer is null. The members
  that only \<open>LogUsage\<close> and \<open>RegisterMetrics\<close> touch (\<open>label_\<close>, \<open>log_usage_if_zero_\<close>,
  the reservation counters and the two remaining gauges) are left out.
\<close>

record MemTracker =
  limit :: int64_t
  parent :: "addr option"
  consumption :: int64_t
  consumption_metric :: "int64_t option"
  auto_unregister :: bool
  query_id :: TUniqueId
  pool_name :: string
  all_trackers :: "addr list"
  limit_trackers :: "addr list"
  child_trackers :: "addr list"
  child_tracker_it :: "addr option"
  num_gcs_metric :: "int64_t option"
  bytes_freed_by_last_gc_metric :: "int64_t option"

section \<open>\<open>MemTracker::GcMemory\<close>\<close>

text \<open>
  A registered GC function is a callback without arguments or result. What it does to
  the tracker it was registered with (it releases memory, and the gauge moves) is a
  function on that tracker's members. The vector \<open>gc_functions_\<close> is passed beside the
  tracker.
\<close>

type_synonym GcFunction = "MemTracker \<Rightarrow> MemTracker"

definition RefreshConsumptionFromMetric :: "MemTracker \<Rightarrow> fault + MemTracker" where
  "RefreshConsumptionFromMetric t =
     (case consumption_metric t of
        None \<Rightarrow> Inl DCheckFailure
      | Some v \<Rightarrow>
          if parent t \<noteq> None then Inl DCheckFailure
          else Inr (t\<lparr>consumption := v\<rparr>))"

text \<open>The \<open>for\<close> loop of \<open>GcMemory\<close> over the GC functions still to be called.\<close>

fun GcMemory_loop :: "GcFunction list \<Rightarrow> int64_t \<Rightarrow> MemTracker \<Rightarrow> fault + MemTracker" where
  "GcMemory_loop [] max_consumption t = Inr t"
| "GcMemory_loop (f # fs) max_consumption t =
     (let t1 = f t in
      case (if consumption_metric t1 \<noteq> None then RefreshConsumptionFromMetric t1
            else Inr t1) of
        Inl e \<Rightarrow> Inl e
      | Inr t2 \<Rightarrow>
          if consumption t2 \<le>s max_consumption then Inr t2
          else GcMemory_loop fs max_consumption t2)"

text \<open>
  \<open>pre_gc_consumption\<close> is a \<open>uint64_t\<close>, so the test "someone gc'd before us" compares
  unsigned; the returned comparison is between two \<open>int64_t\<close>.
\<close>

definition GcMemory :: "GcFunction list \<Rightarrow> int64_t \<Rightarrow> MemTracker \<Rightarrow> fault + bool \<times> MemTracker" where
  "GcMemory gc_functions max_consumption t =
     (if max_consumption <s 0 then Inr (True, t)
      else
        let t1 = (case consumption_metric t of
                    None \<Rightarrow> t
                  | Some v \<Rightarrow> t\<lparr>consumption := v\<rparr>);
            pre_gc_consumption = consumption t1
        in
          if pre_gc_consumption < max_consumption then Inr (False, t1)
          else
            let t2 = t1\<lparr>num_gcs_metric := map_option (\<lambda>n. n + 1) (num_gcs_metric t1)\<rparr> in
            case GcMemory_loop gc_functions max_consumption t2 of
              Inl e \<Rightarrow> Inl e
            | Inr t3 \<Rightarrow>
                let t4 = t3\<lparr>bytes_freed_by_last_gc_metric :=
                             map_option (\<lambda>_. pre_gc_consumption - consumption t3)
                               (bytes_freed_by_last_gc_metric t3)\<rparr>
                in Inr (max_consumption <s consumption t4, t4))"

text \<open>
  A tracker at address 0 as the first constructor leaves it when the parent is null,
  after \<open>used\<close> bytes were consumed.
\<close>

definition plain_tracker :: "int64_t \<Rightarrow> int64_t \<Rightarrow> MemTracker" where
  "plain_tracker byte_limit used =
     \<lparr>limit = byte_limit, parent = None, consumption = used,
      consumption_metric = None, auto_unregister = False,
      query_id = TUniqueId_default, pool_name = '''', all_trackers = [0],
      limit_trackers = (if byte_limit = - 1 then [] else [0]), child_trackers = [],
      child_tracker_it = None, num_gcs_metric = None,
      bytes_freed_by_last_gc_metric = None\<rparr>"

section \<open>The store of trackers and the static registries\<close>

text \<open>
  The process: the trackers that exist, by address; the address the next \<open>new\<close> or
  \<open>make_shared\<close> returns (addresses stand for object identities and are not reused);
  the two static maps, which hold weak or raw pointers; the number of \<open>shared_ptr\<close>
  owners of each tracker; and the warnings written to the log.
\<close>

datatype log_entry = MemLimitExceedsPhysicalMemory int64_t int64_t

record world =
  heap :: "addr \<rightharpoonup> MemTracker"
  next_addr :: addr
  request_to_mem_trackers :: "TUniqueId \<rightharpoonup> addr"
  pool_to_mem_trackers :: "string \<rightharpoonup> addr"
  use_count :: "addr \<Rightarrow> nat"
  warnings :: "log_entry list"

text \<open>
  Modelled from the spec: \<open>has_limit()\<close> is declared in \<open>mem-tracker.h\<close>, which is not
  among the sources. The spec's data model gives a tracker "a signed byte limit
  (\<open>-1\<close> = unlimited)", so a tracker has a limit when its limit is not \<open>-1\<close>.
\<close>

definition has_limit :: "MemTracker \<Rightarrow> bool" where
  "has_limit t \<longleftrightarrow> limit t \<noteq> - 1"

text \<open>
  The \<open>while\<close> loop of \<open>Init\<close>: \<open>tracker\<close> walks up the parent pointers, and the two
  vectors grow at their ends. A loop that never reaches a null parent has no result.
\<close>

partial_function (option) Init_loop ::
  "(addr \<rightharpoonup> MemTracker) \<Rightarrow> addr option \<Rightarrow> addr list \<Rightarrow> addr list
     \<Rightarrow> (fault + addr list \<times> addr list) option" where
  "Init_loop h tracker alls lims =
     (case tracker of
        None \<Rightarrow> Some (Inr (alls, lims))
      | Some a \<Rightarrow>
          (case h a of
             None \<Rightarrow> Some (Inl InvalidPointer)
           | Some t \<Rightarrow>
               Init_loop h (parent t) (alls @ [a])
                 (if has_limit t then lims @ [a] else lims)))"

definition Init :: "addr \<Rightarrow> world \<Rightarrow> (fault + world) option" where
  "Init this w =
     (case heap w this of
        None \<Rightarrow> Some (Inl InvalidPointer)
      | Some t \<Rightarrow>
          if limit t <s - 1 then Some (Inl DCheckFailure)
          else
            (case Init_loop (heap w) (Some this) (all_trackers t) (limit_trackers t) of
               None \<Rightarrow> None
             | Some (Inl e) \<Rightarrow> Some (Inl e)
             | Some (Inr (alls, lims)) \<Rightarrow>
                 if alls = [] then Some (Inl DCheckFailure)
                 else if alls ! 0 \<noteq> this then Some (Inl DCheckFailure)
                 else Some (Inr (w\<lparr>heap := (heap w)
                        (this \<mapsto> t\<lparr>all_trackers := alls, limit_trackers := lims\<rparr>)\<rparr>))))"

text \<open>\<open>this->AddChildTracker(tracker)\<close>: insert at the end, and hand the iterator to the child.\<close>

definition AddChildTracker :: "addr \<Rightarrow> addr \<Rightarrow> world \<Rightarrow> fault + world" where
  "AddChildTracker this tracker w =
     (case heap w this of
        None \<Rightarrow> Inl InvalidPointer
      | Some p \<Rightarrow>
          (case heap w tracker of
             None \<Rightarrow> Inl InvalidPointer
           | Some t \<Rightarrow>
               Inr (w\<lparr>heap := (heap w)
                      (this \<mapsto> p\<lparr>child_trackers := child_trackers p @ [tracker]\<rparr>,
                       tracker \<mapsto> t\<lparr>child_tracker_it := Some tracker\<rparr>)\<rparr>)))"

text \<open>
  \<open>this->UnregisterFromParent()\<close>. Erasing needs an iterator to a node that is still in
  the list; afterwards the member is the list's \<open>end()\<close>. The two writes go to the parent
  and to the tracker in this order, also if both were the same object.
\<close>

definition UnregisterFromParent :: "addr \<Rightarrow> world \<Rightarrow> fault + world" where
  "UnregisterFromParent this w =
     (case heap w this of
        None \<Rightarrow> Inl InvalidPointer
      | Some t \<Rightarrow>
          (case parent t of
             None \<Rightarrow> Inl DCheckFailure
           | Some pa \<Rightarrow>
               (case heap w pa of
                  None \<Rightarrow> Inl InvalidPointer
                | Some p \<Rightarrow>
                    (case child_tracker_it t of
                       None \<Rightarrow> Inl InvalidIterator
                     | Some c \<Rightarrow>
                         if c \<notin> set (child_trackers p) then Inl InvalidIterator
                         else
                           let p' = p\<lparr>child_trackers := remove1 c (child_trackers p)\<rparr>;
                               t' = (if pa = this then p' else t)
                           in Inr (w\<lparr>heap := (heap w)
                                (pa \<mapsto> p', this \<mapsto> t'\<lparr>child_tracker_it := None\<rparr>)\<rparr>)))))"

text \<open>
  The constructor \<open>MemTracker(byte_limit, label, parent, log_usage_if_zero)\<close>, called
  through \<open>new\<close> or \<open>make_shared\<close>: the member initialisers, the registration with the
  parent, then \<open>Init\<close>. The result is the address of the new object.
\<close>

definition MemTracker_new :: "int64_t \<Rightarrow> addr option \<Rightarrow> world \<Rightarrow> (fault + addr \<times> world) option" where
  "MemTracker_new byte_limit par w =
     (let this = next_addr w;
          t = \<lparr>limit = byte_limit, parent = par, consumption = 0,
               consumption_metric = None, auto_unregister = False,
               query_id = TUniqueId_default, pool_name = '''', all_trackers = [],
               limit_trackers = [], child_trackers = [], child_tracker_it = None,
               num_gcs_metric = None, bytes_freed_by_last_gc_metric = None\<rparr>;
          w1 = w\<lparr>heap := (heap w)(this \<mapsto> t), next_addr := Suc this\<rparr>
      in case (case par of None \<Rightarrow> Inr w1 | Some p \<Rightarrow> AddChildTracker p this w1) of
           Inl e \<Rightarrow> Some (Inl e)
         | Inr w2 \<Rightarrow>
             (case Init this w2 of
                None \<Rightarrow> None
              | Some (Inl e) \<Rightarrow> Some (Inl e)
              | Some (Inr w3) \<Rightarrow> Some (Inr (this, w3))))"

text \<open>\<open>MemTracker::GetRequestPoolMemTracker(pool_name, parent)\<close>; the result may be null.\<close>

definition GetRequestPoolMemTracker ::
  "string \<Rightarrow> addr option \<Rightarrow> world \<Rightarrow> (fault + addr option \<times> world) option" where
  "GetRequestPoolMemTracker pool par w =
     (if pool = [] then Some (Inl DCheckFailure)
      else
        (case pool_to_mem_trackers w pool of
           Some tracker \<Rightarrow>
             (case heap w tracker of
                None \<Rightarrow> Some (Inl InvalidPointer)
              | Some t \<Rightarrow>
                  if pool \<noteq> pool_name t then Some (Inl DCheckFailure)
                  else Some (Inr (Some tracker, w)))
         | None \<Rightarrow>
             (case par of
                None \<Rightarrow> Some (Inr (None, w))
              | Some p \<Rightarrow>
                  (case MemTracker_new (- 1) (Some p) w of
                     None \<Rightarrow> None
                   | Some (Inl e) \<Rightarrow> Some (Inl e)
                   | Some (Inr (tracker, w1)) \<Rightarrow>
                       (case heap w1 tracker of
                          None \<Rightarrow> Some (Inl InvalidPointer)
                        | Some t \<Rightarrow>
                            Some (Inr (Some tracker,
                              w1\<lparr>heap := (heap w1)
                                    (tracker \<mapsto> t\<lparr>auto_unregister := True, pool_name := pool\<rparr>),
                                  pool_to_mem_trackers :=
                                    (pool_to_mem_trackers w1)(pool \<mapsto> tracker)\<rparr>)))))))"

text \<open>
  \<open>MemTracker::GetQueryMemTracker(id, byte_limit, parent)\<close>, with \<open>qid\<close> for \<open>id\<close>.
  \<open>MemInfo::physical_mem()\<close> is a parameter. Of the log only the warning is kept.
  Locking the weak pointer of a tracker that has no owner left gives a null pointer,
  which the next line dereferences. The result is a new \<open>shared_ptr\<close> owner of the
  tracker.
\<close>

definition GetQueryMemTracker ::
  "int64_t \<Rightarrow> TUniqueId \<Rightarrow> int64_t \<Rightarrow> addr option \<Rightarrow> world \<Rightarrow> (fault + addr \<times> world) option" where
  "GetQueryMemTracker physical_mem qid byte_limit par w =
     (let w0 = (if byte_limit \<noteq> - 1 \<and> physical_mem <s byte_limit
                then w\<lparr>warnings := warnings w
                        @ [MemLimitExceedsPhysicalMemory byte_limit physical_mem]\<rparr>
                else w)
      in case request_to_mem_trackers w0 qid of
           Some tracker \<Rightarrow>
             (if use_count w0 tracker = 0 then Some (Inl InvalidPointer)
              else
                (case heap w0 tracker of
                   None \<Rightarrow> Some (Inl InvalidPointer)
                 | Some t \<Rightarrow>
                     if limit t \<noteq> byte_limit then Some (Inl DCheckFailure)
                     else if qid \<noteq> query_id t then Some (Inl DCheckFailure)
                     else if par \<noteq> parent t then Some (Inl DCheckFailure)
                     else Some (Inr (tracker,
                       w0\<lparr>use_count := (use_count w0)
                             (tracker := Suc (use_count w0 tracker))\<rparr>))))
         | None \<Rightarrow>
             (case MemTracker_new byte_limit par w0 of
                None \<Rightarrow> None
              | Some (Inl e) \<Rightarrow> Some (Inl e)
              | Some (Inr (tracker, w1)) \<Rightarrow>
                  (case heap w1 tracker of
                     None \<Rightarrow> Some (Inl InvalidPointer)
                   | Some t \<Rightarrow>
                       Some (Inr (tracker,
                         w1\<lparr>heap := (heap w1)
                               (tracker \<mapsto> t\<lparr>auto_unregister := True, query_id := qid\<rparr>),
                             request_to_mem_trackers :=
                               (request_to_mem_trackers w1)(qid \<mapsto> tracker),
                             use_count := (use_count w1)(tracker := 1)\<rparr>)))))"

text \<open>
  \<open>MemTracker::~MemTracker()\<close>, after which the object is gone from the store. Both
  \<open>erase\<close> calls take the key from the members of the tracker that is destroyed.
\<close>

definition MemTracker_destructor :: "addr \<Rightarrow> world \<Rightarrow> fault + world" where
  "MemTracker_destructor this w =
     (case heap w this of
        None \<Rightarrow> Inl InvalidPointer
      | Some t \<Rightarrow>
          if consumption t \<noteq> 0 then Inl DCheckFailure
          else
            (case (if auto_unregister t then UnregisterFromParent this w else Inr w) of
               Inl e \<Rightarrow> Inl e
             | Inr w1 \<Rightarrow>
                 Inr (w1\<lparr>request_to_mem_trackers :=
                           (request_to_mem_trackers w1)(query_id t := None),
                         pool_to_mem_trackers :=
                           (pool_to_mem_trackers w1)(pool_name t := None),
                         heap := (heap w1)(this := None)\<rparr>)))"

text \<open>
  One \<open>shared_ptr\<close> owner of a tracker lets go of it; the last one runs the destructor.
\<close>

definition shared_ptr_reset :: "addr \<Rightarrow> world \<Rightarrow> fault + world" where
  "shared_ptr_reset tracker w =
     (if use_count w tracker = 0 then Inl InvalidPointer
      else if use_count w tracker = 1
      then MemTracker_destructor tracker (w\<lparr>use_count := (use_count w)(tracker := 0)\<rparr>)
      else Inr (w\<lparr>use_count := (use_count w)(tracker := use_count w tracker - 1)\<rparr>))"

text \<open>The process before any tracker exists.\<close>

definition empty_world :: world where
  "empty_world =
     \<lparr>heap = Map.empty, next_addr = 0, request_to_mem_trackers = Map.empty,
      pool_to_mem_trackers = Map.empty, use_count = (\<lambda>_. 0), warnings = []\<rparr>"

declare Init_loop.simps [code]

text \<open>
  The operations of the module on the process, and a run of them. A run stops at the
  first fault.
\<close>

datatype op =
    New int64_t "addr option"
  | Delete addr
  | GetRequestPool string "addr option"
  | GetQuery int64_t TUniqueId int64_t "addr option"
  | Reset addr
  | Unregister addr

fun step :: "op \<Rightarrow> world \<Rightarrow> (fault + world) option" where
  "step (New byte_limit par) w = map_option (map_sum id snd) (MemTracker_new byte_limit par w)"
| "step (Delete a) w = Some (MemTracker_destructor a w)"
| "step (GetRequestPool pool par) w =
     map_option (map_sum id snd) (GetRequestPoolMemTracker pool par w)"
| "step (GetQuery physical_mem qid byte_limit par) w =
     map_option (map_sum id snd) (GetQueryMemTracker physical_mem qid byte_limit par w)"
| "step (Reset a) w = Some (shared_ptr_reset a w)"
| "step (Unregister a) w = Some (UnregisterFromParent a w)"

fun run :: "op list \<Rightarrow> world \<Rightarrow> (fault + world) option" where
  "run [] w = Some (Inr w)"
| "run (x # xs) w =
     (case step x w of
        None \<Rightarrow> None
      | Some (Inl e) \<Rightarrow> Some (Inl e)
      | Some (Inr w') \<Rightarrow> run xs w')"

text \<open>The tracker a call returned, if it returned one.\<close>

definition returned_tracker :: "(fault + addr \<times> world) option \<Rightarrow> MemTracker option" where
  "returned_tracker r = (case r of Some (Inr (a, w)) \<Rightarrow> heap w a | _ \<Rightarrow> None)"

section \<open>The ancestor chain, as the specification words it\<close>

text \<open>
  \<open>parent_chain h tracker xs\<close>: the list \<open>xs\<close> is \<open>tracker\<close> itself, then its parent, then
  its grandparent and so on, nearest first, up to and including the tracker whose parent
  is null. \<open>limited h a\<close>: the tracker at \<open>a\<close> has a limit.
\<close>

fun parent_chain :: "(addr \<rightharpoonup> MemTracker) \<Rightarrow> addr option \<Rightarrow> addr list \<Rightarrow> bool" where
  "parent_chain h tracker [] = (tracker = None)"
| "parent_chain h tracker (x # xs) =
     (tracker = Some x
      \<and> (case h x of None \<Rightarrow> False | Some t \<Rightarrow> parent_chain h (parent t) xs))"

definition limited :: "(addr \<rightharpoonup> MemTracker) \<Rightarrow> addr \<Rightarrow> bool" where
  "limited h a = (case h a of None \<Rightarrow> False | Some t \<Rightarrow> has_limit t)"

section \<open>\<open>QueryState\<close> (\<open>be/src/runtime/query-state.cc\<close>)\<close>

text \<open>
  A \<open>Status\<close> is OK or carries an error code and the details added to it.
  \<open>MemTracker::MemLimitExceeded(state, details, failed_allocation_size)\<close> with a null
  \<open>state\<close> logs nothing and returns the status built here.
\<close>

datatype TErrorCode = GENERAL | MEM_LIMIT_EXCEEDED | SCRATCH_LIMIT_EXCEEDED | IO_ERROR

datatype Status = OK | Error TErrorCode "string list"

definition MemLimitExceeded :: "string \<Rightarrow> Status" where
  "MemLimitExceeded details = Error MEM_LIMIT_EXCEEDED [details]"

text \<open>
  The members of \<open>QueryState\<close> that \<open>Prepare\<close> and \<open>ReleaseResources\<close> use, with the
  initial values of the constructor's initialiser list; \<open>prepare_status_\<close> starts OK.
  \<open>InitMemTrackers\<close> gets \<open>query_mem_tracker_\<close> from \<open>MemTracker::CreateQueryMemTracker\<close>,
  which the \<open>mem-tracker.cc\<close> among the sources does not have: the pointer is a parameter
  of the constructor here.
\<close>

record QueryState =
  query_ctx_query_id :: TUniqueId
  refcnt :: int
  prepared :: bool
  prepare_status :: Status
  released_resources :: bool
  query_mem_tracker :: "addr option"

definition QueryState_new :: "TUniqueId \<Rightarrow> addr option \<Rightarrow> QueryState" where
  "QueryState_new qid tracker =
     \<lparr>query_ctx_query_id = qid, refcnt = 0, prepared = False, prepare_status = OK,
      released_resources = False, query_mem_tracker = tracker\<rparr>"

definition ReleaseResources :: "QueryState \<Rightarrow> world \<Rightarrow> fault + QueryState \<times> world" where
  "ReleaseResources qs w =
     (case query_mem_tracker qs of
        None \<Rightarrow> Inl InvalidPointer
      | Some tracker \<Rightarrow>
          (case UnregisterFromParent tracker w of
             Inl e \<Rightarrow> Inl e
           | Inr w' \<Rightarrow> Inr (qs\<lparr>released_resources := True\<rparr>, w')))"

text \<open>
  \<open>QueryState::Prepare()\<close>. \<open>PrintId\<close> is a parameter. The process tracker that
  \<open>ExecEnv::GetInstance()->process_mem_tracker()\<close> yields is not part of the \<open>QueryState\<close>:
  \<open>env\<close> is the state of the process outside the query, and \<open>LimitExceeded\<close>, a method
  of the absent \<open>mem-tracker.h\<close>, is a parameter that answers on that state and may
  change it. \<open>MemLimitExceeded\<close> with a null \<open>state\<close> changes nothing.
\<close>

definition Prepare ::
  "(TUniqueId \<Rightarrow> string) \<Rightarrow> ('env \<Rightarrow> bool \<times> 'env) \<Rightarrow> QueryState \<Rightarrow> 'env
     \<Rightarrow> fault + Status \<times> QueryState \<times> 'env" where
  "Prepare PrintId LimitExceeded qs env =
     (if prepared qs then
        (if prepare_status qs \<noteq> OK then Inl DCheckFailure else Inr (OK, qs, env))
      else if prepare_status qs \<noteq> OK then Inr (prepare_status qs, qs, env)
      else
        (case LimitExceeded env of
           (exceeded, env') \<Rightarrow>
             if exceeded then
               (let msg = ''Query '' @ PrintId (query_ctx_query_id qs)
                          @ '' could not start because the backend Impala daemon ''
                          @ ''is over its memory limit'';
                    qs' = qs\<lparr>prepare_status := MemLimitExceeded msg\<rparr>
                in Inr (prepare_status qs', qs', env'))
             else Inr (OK, qs\<lparr>prepared := True\<rparr>, env')))"

text \<open>
  Callers one after the other, each with the admission check as it would run at that
  moment; the statuses they get, and the state of the process after the last one.
\<close>

fun Prepare_calls ::
  "(TUniqueId \<Rightarrow> string) \<Rightarrow> ('env \<Rightarrow> bool \<times> 'env) list \<Rightarrow> QueryState \<Rightarrow> 'env
     \<Rightarrow> fault + Status list \<times> QueryState \<times> 'env" where
  "Prepare_calls PrintId [] qs env = Inr ([], qs, env)"
| "Prepare_calls PrintId (x # xs) qs env =
     (case Prepare PrintId x qs env of
        Inl e \<Rightarrow> Inl e
      | Inr (st, qs', env') \<Rightarrow>
          (case Prepare_calls PrintId xs qs' env' of
             Inl e \<Rightarrow> Inl e
           | Inr (sts, qs'', env'') \<Rightarrow> Inr (st # sts, qs'', env'')))"

section \<open>Scratch files (\<open>TmpFileMgr\<close>)\<close>

text \<open>
  Only the tests of \<open>TmpFileMgr\<close> are among the sources
  (\<open>be/src/runtime/tmp-file-mgr-test.cc\<close>); \<open>tmp-file-mgr.cc\<close> and its header are not. The
  definitions of this section follow the specification, sections 3, 4.2 and 4.3, and the
  calls the tests make. Byte counts are integers. Whether the file system carries out an
  extension is an input of the allocation (\<open>io_ok\<close>).
\<close>

text \<open>
  Modelled from the spec: the device (\<open>TmpFileDevice\<close>) and the manager's set of devices,
  missing with \<open>tmp-file-mgr.cc\<close>. "Attributes: a stable numeric id, a filesystem path, a
  health flag (active/failed)"; device ids are dense, so a device's id is its position.
\<close>

record TmpFileDevice =
  dir_path :: string
  active :: bool

record TmpFileMgr =
  tmp_dirs :: "TmpFileDevice list"

definition active_tmp_devices :: "TmpFileMgr \<Rightarrow> nat list" where
  "active_tmp_devices mgr =
     filter (\<lambda>i. active (tmp_dirs mgr ! i)) [0 ..< length (tmp_dirs mgr)]"

definition num_active_tmp_devices :: "TmpFileMgr \<Rightarrow> nat" where
  "num_active_tmp_devices mgr = length (active_tmp_devices mgr)"

text \<open>
  Modelled from the spec: the file (\<open>TmpFileMgr::File\<close>), missing with \<open>tmp-file-mgr.cc\<close>.
  "Attributes: owning device id, absolute path, current allocated-high-water byte offset,
  a per-file error flag". \<open>disk_size\<close> is the size of the file on disk, \<open>None\<close> while the
  file does not exist there ("does not touch disk until the first allocation").
  Blacklisting "exists only as noted-but-disabled future work": the flag is never set.
\<close>

record TmpFile =
  device_id :: nat
  path :: string
  current_size :: int
  io_error :: "string option"
  blacklisted :: bool
  disk_size :: "int option"

definition is_blacklisted :: "TmpFile \<Rightarrow> bool" where
  "is_blacklisted f = blacklisted f"

text \<open>
  Modelled from the spec: \<open>ReportIOError\<close>, missing with \<open>tmp-file-mgr.cc\<close>. "Records the
  first error seen; idempotent; does not throw/raise"; "file-level errors do not disable
  the whole device in the baseline policy".
\<close>

definition ReportIOError :: "string \<Rightarrow> TmpFile \<Rightarrow> TmpFileMgr \<Rightarrow> TmpFile \<times> TmpFileMgr" where
  "ReportIOError msg f mgr =
     (case io_error f of
        None \<Rightarrow> (f\<lparr>io_error := Some msg\<rparr>, mgr)
      | Some _ \<Rightarrow> (f, mgr))"

text \<open>
  Modelled from the spec: \<open>File::AllocateSpace\<close>, missing with \<open>tmp-file-mgr.cc\<close>. "Returns
  \<open>offset = current_high_water_mark\<close>, extends the file to \<open>offset+num_bytes\<close> on disk, and
  advances the mark. On I/O failure, marks the file's error flag, surfaces a
  retryable-at-caller's-discretion error, but leaves the device itself active".
\<close>

definition File_AllocateSpace ::
  "bool \<Rightarrow> int \<Rightarrow> TmpFile \<Rightarrow> TmpFileMgr \<Rightarrow> (TErrorCode + int) \<times> TmpFile \<times> TmpFileMgr" where
  "File_AllocateSpace io_ok num_bytes f mgr =
     (if io_ok then
        (Inr (current_size f),
         f\<lparr>current_size := current_size f + num_bytes,
           disk_size := Some (current_size f + num_bytes)\<rparr>,
         mgr)
      else
        (Inl IO_ERROR, ReportIOError ''allocation failed'' f mgr))"

text \<open>The same file asked again and again; the answers in order.\<close>

fun File_AllocateSpace_calls ::
  "(bool \<times> int) list \<Rightarrow> TmpFile \<Rightarrow> TmpFileMgr \<Rightarrow> (TErrorCode + int) list \<times> TmpFile \<times> TmpFileMgr" where
  "File_AllocateSpace_calls [] f mgr = ([], f, mgr)"
| "File_AllocateSpace_calls ((io_ok, n) # rs) f mgr =
     (case File_AllocateSpace io_ok n f mgr of
        (r, f', mgr') \<Rightarrow>
          (case File_AllocateSpace_calls rs f' mgr' of
             (rs', f'', mgr'') \<Rightarrow> (r # rs', f'', mgr'')))"

text \<open>
  Modelled from the spec: the file group (\<open>TmpFileMgr::FileGroup\<close>), missing with
  \<open>tmp-file-mgr.cc\<close>. "Ordered collection of TmpFile instances (one or more per device,
  round-robin selection pointer), an optional aggregate byte limit shared by all files
  in the group", and the "single shared atomic counter of bytes allocated group-wide".
\<close>

record FileGroup =
  tmp_files :: "TmpFile list"
  next_allocation_index :: nat
  bytes_limit :: "int option"
  current_bytes_allocated :: int

definition FileGroup_new :: "int option \<Rightarrow> FileGroup" where
  "FileGroup_new lim =
     \<lparr>tmp_files = [], next_allocation_index = 0, bytes_limit = lim,
      current_bytes_allocated = 0\<rparr>"

text \<open>
  Modelled from the spec: \<open>FileGroup::NewFile\<close>, missing with \<open>tmp-file-mgr.cc\<close>. "Creates
  a fresh TmpFile on the given device scoped to the group; does not touch disk until the
  first allocation"; "a failed device is excluded from future allocation", so there is
  no new file on a device that is unknown or not active. The new file is the last of the
  group; the result is its index. The file name is generated per (query id, sequence).
\<close>

definition NewFile ::
  "nat \<Rightarrow> string \<Rightarrow> FileGroup \<Rightarrow> TmpFileMgr \<Rightarrow> (nat \<times> FileGroup) option" where
  "NewFile dev unique_name g mgr =
     (if dev < length (tmp_dirs mgr) \<and> active (tmp_dirs mgr ! dev) then
        Some (length (tmp_files g),
          g\<lparr>tmp_files := tmp_files g @
               [\<lparr>device_id = dev,
                 path = dir_path (tmp_dirs mgr ! dev) @ ''/impala-scratch/'' @ unique_name,
                 current_size = 0, io_error = None, blacklisted = False,
                 disk_size = None\<rparr>]\<rparr>)
      else None)"

text \<open>
  Modelled from the spec: \<open>FileGroup::AllocateSpace\<close>, missing with \<open>tmp-file-mgr.cc\<close>.
  "Selects the next device in round-robin order (advancing the pointer unconditionally
  for fairness), attempts allocation on that device's current file; if the group's
  configured aggregate limit would be exceeded, fails fast with kind
  \<open>ScratchLimitExceeded\<close> before touching any file"; the counter is "incremented only
  after a successful per-file allocation". A group without a file has nothing to extend
  and answers with an I/O error. The result names the file by its index in the group.
\<close>

definition allocate_from ::
  "bool \<Rightarrow> int \<Rightarrow> nat \<Rightarrow> FileGroup \<Rightarrow> TmpFileMgr
     \<Rightarrow> (TErrorCode + nat \<times> int) \<times> FileGroup \<times> TmpFileMgr" where
  "allocate_from io_ok num_bytes i g mgr =
     (if length (tmp_files g) \<le> i then (Inl IO_ERROR, g, mgr)
      else
        (case File_AllocateSpace io_ok num_bytes (tmp_files g ! i) mgr of
           (Inl e, f', mgr') \<Rightarrow> (Inl e, g\<lparr>tmp_files := (tmp_files g)[i := f']\<rparr>, mgr')
         | (Inr offset, f', mgr') \<Rightarrow>
             (Inr (i, offset),
              g\<lparr>tmp_files := (tmp_files g)[i := f'],
                current_bytes_allocated := current_bytes_allocated g + num_bytes\<rparr>,
              mgr')))"

definition FileGroup_AllocateSpace ::
  "bool \<Rightarrow> int \<Rightarrow> FileGroup \<Rightarrow> TmpFileMgr
     \<Rightarrow> (TErrorCode + nat \<times> int) \<times> FileGroup \<times> TmpFileMgr" where
  "FileGroup_AllocateSpace io_ok num_bytes g mgr =
     (let i = next_allocation_index g;
          g1 = g\<lparr>next_allocation_index :=
                  (if tmp_files g = [] then 0 else (i + 1) mod length (tmp_files g))\<rparr>
      in case bytes_limit g of
           None \<Rightarrow> allocate_from io_ok num_bytes i g1 mgr
         | Some lim \<Rightarrow>
             if lim < current_bytes_allocated g + num_bytes
             then (Inl SCRATCH_LIMIT_EXCEEDED, g1, mgr)
             else allocate_from io_ok num_bytes i g1 mgr)"

text \<open>The same group asked again and again; the answers in order.\<close>

fun FileGroup_AllocateSpace_calls ::
  "(bool \<times> int) list \<Rightarrow> FileGroup \<Rightarrow> TmpFileMgr
     \<Rightarrow> (TErrorCode + nat \<times> int) list \<times> FileGroup \<times> TmpFileMgr" where
  "FileGroup_AllocateSpace_calls [] g mgr = ([], g, mgr)"
| "FileGroup_AllocateSpace_calls ((io_ok, n) # rs) g mgr =
     (case FileGroup_AllocateSpace io_ok n g mgr of
        (r, g', mgr') \<Rightarrow>
          (case FileGroup_AllocateSpace_calls rs g' mgr' of
             (rs', g'', mgr'') \<Rightarrow> (r # rs', g'', mgr'')))"

text \<open>The bytes a list of requests was granted: the sizes of those that got an offset.\<close>

fun granted :: "(bool \<times> int) list \<Rightarrow> (TErrorCode + 'a) list \<Rightarrow> int" where
  "granted ((io_ok, n) # rs) (Inr x # xs) = n + granted rs xs"
| "granted (r # rs) (Inl e # xs) = granted rs xs"
| "granted _ _ = 0"

text \<open>The bytes the files of a group hold together.\<close>

definition bytes_in_files :: "FileGroup \<Rightarrow> int" where
  "bytes_in_files g = sum_list (map current_size (tmp_files g))"

section \<open>Auxiliary notions for stating the results\<close>

text \<open>The two cached vectors of the tracker at an address, while it exists.\<close>

definition cached :: "world \<Rightarrow> addr \<Rightarrow> (addr list \<times> addr list) option" where
  "cached w a = map_option (\<lambda>t. (all_trackers t, limit_trackers t)) (heap w a)"

text \<open>
  A tracker that reads its consumption from a gauge has no parent (the constructor that
  takes the gauge sets none).
\<close>

definition metric_only_at_root :: "MemTracker \<Rightarrow> bool" where
  "metric_only_at_root t \<longleftrightarrow> consumption_metric t = None \<or> parent t = None"

text \<open>
  The query ids of the trackers that exist, and the state the query registry is in after
  any run: an entry leads to a tracker with that id, a tracker with an id other than the
  default one has the entry of its id, and nothing exists at an address not yet given out.
\<close>

definition qids :: "world \<Rightarrow> addr \<rightharpoonup> TUniqueId" where
  "qids w a = map_option query_id (heap w a)"

definition registry_ok :: "world \<Rightarrow> bool" where
  "registry_ok w \<longleftrightarrow>
     (\<forall>q a. request_to_mem_trackers w q = Some a \<longrightarrow> qids w a = Some q)
     \<and> (\<forall>a q. qids w a = Some q \<and> q \<noteq> TUniqueId_default
           \<longrightarrow> request_to_mem_trackers w q = Some a)
     \<and> (\<forall>a. next_addr w \<le> a \<longrightarrow> qids w a = None)"

text \<open>
  Two ways an operation can leave ids, registry and next address: as they were, or with
  one more tracker, of a given id, at the next address.
\<close>

definition same_view :: "world \<Rightarrow> world \<Rightarrow> bool" where
  "same_view w w' \<longleftrightarrow>
     qids w' = qids w \<and> request_to_mem_trackers w' = request_to_mem_trackers w
     \<and> next_addr w' = next_addr w"

definition allocated :: "TUniqueId \<Rightarrow> world \<Rightarrow> world \<Rightarrow> bool" where
  "allocated q w w' \<longleftrightarrow>
     qids w' = (qids w)(next_addr w \<mapsto> q) \<and> next_addr w' = Suc (next_addr w)"

text \<open>The process a run ended in (the empty process, had the run no end or a fault).\<close>

definition the_world :: "(fault + world) option \<Rightarrow> world" where
  "the_world r = (case r of Some (Inr w) \<Rightarrow> w | _ \<Rightarrow> empty_world)"

text \<open>
  Three processes to run the operations in: one with the process tracker alone, at
  address 0; one with a child of it that has limit 100, at address 1; and one with the
  process tracker, at 1 the interned tracker of the query with the default id, owned
  once, and at 2 a tracker nobody interned.
\<close>

definition process_world :: world where
  "process_world = the_world (run [New (- 1) None] empty_world)"

definition child_world :: world where
  "child_world = the_world (run [New (- 1) None, New 100 (Some 0)] empty_world)"

definition interned_world :: world where
  "interned_world =
     the_world (run [New (- 1) None, GetQuery 1000 TUniqueId_default (- 1) (Some 0),
                     New (- 1) None] empty_world)"

text \<open>
  The set-up of \<open>TestScratchLimit\<close> and \<open>TestReportError\<close>: two scratch directories, both
  active, and a group with one file on each.
\<close>

definition two_dirs :: TmpFileMgr where
  "two_dirs =
     \<lparr>tmp_dirs = [\<lparr>dir_path = ''/tmp/tmp-file-mgr-test.1'', active = True\<rparr>,
                 \<lparr>dir_path = ''/tmp/tmp-file-mgr-test.2'', active = True\<rparr>]\<rparr>"

definition group_of_two :: "int option \<Rightarrow> FileGroup" where
  "group_of_two lim =
     (case NewFile 0 ''file1'' (FileGroup_new lim) two_dirs of
        None \<Rightarrow> FileGroup_new lim
      | Some (i, g) \<Rightarrow>
          (case NewFile 1 ''file2'' g two_dirs of None \<Rightarrow> g | Some (j, g') \<Rightarrow> g'))"

section \<open>Signed and unsigned readings of a 64-bit word\<close>

lemma sint_nonneg_uint:
  fixes m :: int64_t
  assumes "0 \<le> sint m"
  shows "uint m = sint m"
proof -
  have "sint m < 2 ^ 63" using sint_lt [of m] by simp
  then have "sint m < 2 ^ 64" by simp
  with assms have "take_bit 64 (sint m) = sint m" by (simp add: take_bit_int_eq_self)
  then show ?thesis using uint_sint [of m] by simp
qed

lemma uint_small_sint:
  fixes p :: int64_t
  assumes "uint p < 2 ^ 63"
  shows "sint p = uint p"
proof -
  have "- (2 ^ 63) \<le> uint p" by (rule order_trans [of _ 0]) simp_all
  with assms have "signed_take_bit 63 (uint p) = uint p"
    by (simp add: signed_take_bit_int_eq_self)
  then show ?thesis using sint_uint [of p] by simp
qed

lemma unsigned_less_signed:
  fixes p m :: int64_t
  assumes "0 \<le> sint m" and "p < m"
  shows "sint p < sint m"
proof -
  have um: "uint m = sint m" using assms(1) by (rule sint_nonneg_uint)
  have pm: "uint p < uint m" using assms(2) by (simp add: word_less_alt)
  moreover have "sint m < 2 ^ 63" using sint_lt [of m] by simp
  ultimately have "uint p < 2 ^ 63" using um by linarith
  then have "sint p = uint p" by (rule uint_small_sint)
  with pm um show ?thesis by simp
qed

section \<open>What \<open>GcMemory\<close> returns\<close>

text \<open>
  C1, as stated, at a tracker that uses nothing and has no GC function: with target 10
  the consumption after the call is 0, which is at most 10, and the call returns false.
\<close>

theorem GcMemory_false_when_target_met:
  "GcMemory [] 10 (plain_tracker (- 1) 0) = Inr (False, plain_tracker (- 1) 0)
   \<and> consumption (plain_tracker (- 1) 0) \<le>s 10"
  by (simp add: GcMemory_def plain_tracker_def word_sless_alt word_sle_eq)

text \<open>
  C1, amended: whenever \<open>GcMemory\<close> returns, it returns true exactly when the target is
  negative or the consumption after the call is still greater than the target; so for a
  target that is not negative, true means that the target was not reached.
\<close>

theorem GcMemory_true_iff_still_exceeded:
  assumes "GcMemory gc_functions max_consumption t = Inr (b, t')"
  shows "b \<longleftrightarrow> (max_consumption <s 0 \<or> max_consumption <s consumption t')"
proof (cases "max_consumption <s 0")
  case True
  with assms show ?thesis by (simp add: GcMemory_def)
next
  case nonneg: False
  then have m0: "0 \<le> sint max_consumption" by (simp add: word_sless_alt)
  define t1 where "t1 = (case consumption_metric t of None \<Rightarrow> t
                         | Some v \<Rightarrow> t\<lparr>consumption := v\<rparr>)"
  show ?thesis
  proof (cases "consumption t1 < max_consumption")
    case True
    with assms nonneg have r: "b = False" "t' = t1"
      by (simp_all add: GcMemory_def t1_def Let_def)
    from m0 True have "sint (consumption t1) < sint max_consumption"
      by (rule unsigned_less_signed)
    then have "\<not> max_consumption <s consumption t1" by (simp add: word_sless_alt)
    with r nonneg show ?thesis by simp
  next
    case False
    with assms nonneg show ?thesis
      by (auto simp: GcMemory_def t1_def Let_def split: sum.splits)
  qed
qed

theorem GcMemory_true_iff_still_exceeded_witness:
  "GcMemory [\<lambda>t. t\<lparr>consumption := 40\<rparr>] 50 (plain_tracker (- 1) 100)
     = Inr (False, plain_tracker (- 1) 40)
   \<and> (False \<longleftrightarrow> ((50 :: int64_t) <s 0 \<or> 50 <s consumption (plain_tracker (- 1) 40)))"
proof -
  have run: "GcMemory [\<lambda>t. t\<lparr>consumption := 40\<rparr>] 50 (plain_tracker (- 1) 100)
     = Inr (False, plain_tracker (- 1) 40)"
    by (simp add: GcMemory_def plain_tracker_def word_sless_alt word_sle_eq)
  from GcMemory_true_iff_still_exceeded [OF run] run show ?thesis by simp
qed

text \<open>
  \<open>GcMemory\<close> does return when the tracker, and what the GC functions make of it, has a
  gauge only without a parent: the one \<open>DCHECK\<close> on its way then holds.
\<close>

lemma GcMemory_loop_returns:
  assumes "\<forall>f \<in> set fns. \<forall>u. metric_only_at_root u \<longrightarrow> metric_only_at_root (f u)"
    and "metric_only_at_root t"
  shows "\<exists>t'. GcMemory_loop fns m t = Inr t'"
  using assms
proof (induction fns arbitrary: t)
  case Nil
  show ?case by simp
next
  case (Cons f fs)
  have "f \<in> set (f # fs)" by simp
  with Cons.prems(1) have "\<forall>u. metric_only_at_root u \<longrightarrow> metric_only_at_root (f u)"
    by blast
  with Cons.prems(2) have safe1: "metric_only_at_root (f t)" by blast
  have rest: "\<forall>g \<in> set fs. \<forall>u. metric_only_at_root u \<longrightarrow> metric_only_at_root (g u)"
  proof
    fix g
    assume "g \<in> set fs"
    then have "g \<in> set (f # fs)" by simp
    with Cons.prems(1) show "\<forall>u. metric_only_at_root u \<longrightarrow> metric_only_at_root (g u)"
      by blast
  qed
  show ?case
  proof (cases "consumption_metric (f t)")
    case None
    then have unfold: "GcMemory_loop (f # fs) m t =
        (if consumption (f t) \<le>s m then Inr (f t) else GcMemory_loop fs m (f t))"
      by (simp add: Let_def)
    from Cons.IH [OF rest safe1] obtain t' where "GcMemory_loop fs m (f t) = Inr t'" by blast
    then show ?thesis unfolding unfold by (cases "consumption (f t) \<le>s m") simp_all
  next
    case (Some v)
    with safe1 have par: "parent (f t) = None" by (simp add: metric_only_at_root_def)
    define t2 where "t2 = (f t)\<lparr>consumption := v\<rparr>"
    have unfold: "GcMemory_loop (f # fs) m t =
        (if consumption t2 \<le>s m then Inr t2 else GcMemory_loop fs m t2)"
      using Some par by (simp add: Let_def RefreshConsumptionFromMetric_def t2_def)
    have "metric_only_at_root t2" using par by (simp add: t2_def metric_only_at_root_def)
    from Cons.IH [OF rest this] obtain t' where "GcMemory_loop fs m t2 = Inr t'" by blast
    then show ?thesis unfolding unfold by (cases "consumption t2 \<le>s m") simp_all
  qed
qed

lemma GcMemory_returns:
  assumes "\<forall>f \<in> set fns. \<forall>u. metric_only_at_root u \<longrightarrow> metric_only_at_root (f u)"
    and "metric_only_at_root t"
  shows "\<exists>b t'. GcMemory fns m t = Inr (b, t')"
proof (cases "m <s 0")
  case True
  then have "GcMemory fns m t = Inr (True, t)" by (simp add: GcMemory_def)
  then show ?thesis by blast
next
  case nonneg: False
  define t1 where "t1 = (case consumption_metric t of None \<Rightarrow> t | Some v \<Rightarrow> t\<lparr>consumption := v\<rparr>)"
  show ?thesis
  proof (cases "consumption t1 < m")
    case True
    with nonneg have "GcMemory fns m t = Inr (False, t1)"
      by (simp add: GcMemory_def Let_def t1_def)
    then show ?thesis by blast
  next
    case False
    define t2 where "t2 = t1\<lparr>num_gcs_metric := map_option (\<lambda>n. n + 1) (num_gcs_metric t1)\<rparr>"
    from assms(2) have "metric_only_at_root t2"
      by (cases "consumption_metric t") (simp_all add: t2_def t1_def metric_only_at_root_def)
    from GcMemory_loop_returns [OF assms(1) this] obtain t3
      where loop: "GcMemory_loop fns m t2 = Inr t3" by blast
    define t4 where "t4 = t3\<lparr>bytes_freed_by_last_gc_metric :=
                             map_option (\<lambda>_. consumption t1 - consumption t3)
                               (bytes_freed_by_last_gc_metric t3)\<rparr>"
    have "GcMemory fns m t = Inr (m <s consumption t4, t4)"
      unfolding GcMemory_def Let_def
      using nonneg False loop by (simp add: t1_def t2_def t4_def)
    then show ?thesis by blast
  qed
qed

text \<open>
  On a tracker that passed the \<open>DCHECK\<close> of \<open>Init\<close>, having a limit is the same as the
  limit not being negative.
\<close>

lemma has_limit_iff_nonneg:
  assumes "\<not> limit t <s - 1"
  shows "has_limit t \<longleftrightarrow> 0 \<le>s limit t"
proof (cases "limit t = - 1")
  case True
  then show ?thesis by (simp add: has_limit_def word_sle_eq)
next
  case False
  have "sint (limit t) \<noteq> - 1"
  proof
    assume "sint (limit t) = - 1"
    then have "of_int (sint (limit t)) = (of_int (- 1) :: int64_t)" by (rule arg_cong)
    with False show False by simp
  qed
  moreover from assms have "- 1 \<le> sint (limit t)" by (simp add: word_sless_alt)
  ultimately have "0 \<le> sint (limit t)" by linarith
  with False show ?thesis by (simp add: has_limit_def word_sle_eq)
qed

section \<open>The constructor and the ancestor chain\<close>

lemma Init_loop_chain:
  "parent_chain h tracker xs \<Longrightarrow>
   Init_loop h tracker alls lims = Some (Inr (alls @ xs, lims @ filter (limited h) xs))"
proof (induction xs arbitrary: tracker alls lims)
  case Nil
  then show ?case by (simp add: Init_loop.simps)
next
  case (Cons x xs)
  from Cons.prems obtain t where tr: "tracker = Some x" and hx: "h x = Some t"
    and rest: "parent_chain h (parent t) xs"
    by (auto split: option.splits)
  have lx: "limited h x = has_limit t" by (simp add: limited_def hx)
  have "Init_loop h tracker alls lims =
        Init_loop h (parent t) (alls @ [x]) (if has_limit t then lims @ [x] else lims)"
    by (subst Init_loop.simps) (simp add: tr hx)
  also have "\<dots> = Some (Inr ((alls @ [x]) @ xs,
        (if has_limit t then lims @ [x] else lims) @ filter (limited h) xs))"
    by (rule Cons.IH [OF rest])
  finally show ?case by (simp add: lx)
qed

lemma parent_chain_dom: "parent_chain h tracker xs \<Longrightarrow> x \<in> set xs \<Longrightarrow> h x \<noteq> None"
  by (induction xs arbitrary: tracker) (auto split: option.splits)

lemma parent_chain_cong:
  "(\<And>x. x \<in> set xs \<Longrightarrow> map_option parent (h' x) = map_option parent (h x)) \<Longrightarrow>
   parent_chain h' tracker xs = parent_chain h tracker xs"
proof (induction xs arbitrary: tracker)
  case Nil
  then show ?case by simp
next
  case (Cons x xs)
  have px: "map_option parent (h' x) = map_option parent (h x)" by (rule Cons.prems) simp
  have ih: "\<And>tr. parent_chain h' tr xs = parent_chain h tr xs"
    by (rule Cons.IH) (simp add: Cons.prems)
  show ?case
  proof (cases "h x")
    case None
    with px show ?thesis by simp
  next
    case (Some t)
    with px obtain t' where "h' x = Some t'" "parent t' = parent t" by auto
    with Some ih show ?thesis by simp
  qed
qed

lemma limited_cong:
  "map_option limit (h' x) = map_option limit (h x) \<Longrightarrow> limited h' x = limited h x"
  by (cases "h x"; cases "h' x") (auto simp: limited_def has_limit_def)

lemma filter_limited_cong:
  assumes "\<And>x. x \<in> set xs \<Longrightarrow> map_option limit (h' x) = map_option limit (h x)"
  shows "filter (limited h') xs = filter (limited h) xs"
proof (rule filter_cong [OF refl])
  fix x
  assume "x \<in> set xs"
  then have "map_option limit (h' x) = map_option limit (h x)" by (rule assms)
  then show "limited h' x = limited h x" by (rule limited_cong)
qed

text \<open>The world a constructor call leaves, written out.\<close>

lemma MemTracker_new_chain:
  assumes fresh: "heap w (next_addr w) = None"
    and chain: "parent_chain (heap w) par xs"
    and lim: "\<not> byte_limit <s - 1"
  shows "\<exists>w' t. MemTracker_new byte_limit par w = Some (Inr (next_addr w, w'))
           \<and> heap w' (next_addr w) = Some t
           \<and> all_trackers t = next_addr w # xs
           \<and> limit_trackers t = filter (limited (heap w')) (next_addr w # xs)
           \<and> parent_chain (heap w') (Some (next_addr w)) (next_addr w # xs)"
proof -
  define this where "this = next_addr w"
  define t0 where "t0 = \<lparr>limit = byte_limit, parent = par, consumption = 0,
               consumption_metric = None, auto_unregister = False,
               query_id = TUniqueId_default, pool_name = [], all_trackers = [],
               limit_trackers = [], child_trackers = [], child_tracker_it = None,
               num_gcs_metric = None, bytes_freed_by_last_gc_metric = None\<rparr>"
  define w1 where "w1 = w\<lparr>heap := (heap w)(this \<mapsto> t0), next_addr := Suc this\<rparr>"
  have notin: "this \<notin> set xs"
    using parent_chain_dom [OF chain, of this] fresh by (auto simp: this_def)
  obtain w2 t2 where add: "(case par of None \<Rightarrow> Inr w1 | Some p \<Rightarrow> AddChildTracker p this w1) = Inr w2"
    and h2this: "heap w2 this = Some t2" and t2: "limit t2 = byte_limit" "parent t2 = par"
      "all_trackers t2 = []" "limit_trackers t2 = []"
    and h2par: "\<And>x. x \<in> set xs \<Longrightarrow> map_option parent (heap w2 x) = map_option parent (heap w x)"
    and h2lim: "\<And>x. x \<in> set xs \<Longrightarrow> map_option limit (heap w2 x) = map_option limit (heap w x)"
  proof (cases par)
    case None
    show ?thesis
      by (rule that [of w1 t0]) (use None notin in \<open>auto simp: w1_def t0_def\<close>)
  next
    case (Some p)
    with chain obtain ys tp where xs: "xs = p # ys" and hp: "heap w p = Some tp"
      by (cases xs) (auto split: option.splits)
    from notin xs have pne: "p \<noteq> this" by auto
    show ?thesis
      by (rule that [of "w1\<lparr>heap := (heap w1)
                      (p \<mapsto> tp\<lparr>child_trackers := child_trackers tp @ [this]\<rparr>,
                       this \<mapsto> t0\<lparr>child_tracker_it := Some this\<rparr>)\<rparr>" "t0\<lparr>child_tracker_it := Some this\<rparr>"])
        (use Some notin pne hp in \<open>auto simp: w1_def t0_def AddChildTracker_def\<close>)
  qed
  have c2: "parent_chain (heap w2) par xs"
    using chain parent_chain_cong [of xs "heap w2" "heap w" par] h2par by simp
  have c2': "parent_chain (heap w2) (Some this) (this # xs)"
    using c2 h2this t2 by simp
  have loop: "Init_loop (heap w2) (Some this) [] [] =
      Some (Inr ([] @ (this # xs), [] @ filter (limited (heap w2)) (this # xs)))"
    by (rule Init_loop_chain [OF c2'])
  define t3 where "t3 = t2\<lparr>all_trackers := this # xs,
      limit_trackers := filter (limited (heap w2)) (this # xs)\<rparr>"
  define w3 where "w3 = w2\<lparr>heap := (heap w2)(this \<mapsto> t3)\<rparr>"
  have init: "Init this w2 = Some (Inr w3)"
    using lim loop by (simp add: Init_def h2this t2 w3_def t3_def)
  have new: "MemTracker_new byte_limit par w = Some (Inr (this, w3))"
    using add [unfolded w1_def] init
    by (simp add: MemTracker_new_def Let_def flip: this_def t0_def)
  have par3: "\<And>x. map_option parent (heap w3 x) = map_option parent (heap w2 x)"
    by (simp add: w3_def t3_def h2this)
  have lim3: "\<And>x. map_option limit (heap w3 x) = map_option limit (heap w2 x)"
    by (simp add: w3_def t3_def h2this)
  have c3: "parent_chain (heap w3) (Some this) (this # xs)"
    using c2' parent_chain_cong [of "this # xs" "heap w3" "heap w2" "Some this"] par3 by blast
  have f3: "filter (limited (heap w3)) (this # xs) = filter (limited (heap w2)) (this # xs)"
    by (rule filter_limited_cong) (rule lim3)
  have "heap w3 this = Some t3" by (simp add: w3_def)
  moreover have "all_trackers t3 = this # xs" by (simp add: t3_def)
  moreover have "limit_trackers t3 = filter (limited (heap w3)) (this # xs)"
    unfolding f3 by (simp add: t3_def)
  ultimately show ?thesis using new c3 unfolding this_def by blast
qed

section \<open>What each operation leaves alone\<close>

lemma AddChildTracker_cached:
  "AddChildTracker p c w = Inr w' \<Longrightarrow> cached w' a = cached w a"
  by (auto simp: AddChildTracker_def cached_def split: option.splits)

lemma UnregisterFromParent_cached:
  "UnregisterFromParent c w = Inr w' \<Longrightarrow> cached w' a = cached w a"
  by (auto simp: UnregisterFromParent_def Let_def cached_def split: option.splits if_splits)

lemma Init_cached:
  "Init this w = Some (Inr w') \<Longrightarrow> a \<noteq> this \<Longrightarrow> cached w' a = cached w a"
  by (auto simp: Init_def cached_def split: option.splits if_splits sum.splits)

lemma MemTracker_new_cached:
  assumes "MemTracker_new byte_limit par w = Some (Inr (b, w'))" and "a \<noteq> next_addr w"
  shows "cached w' a = cached w a"
proof -
  define w1 where "w1 = w\<lparr>heap := (heap w)(next_addr w \<mapsto>
      \<lparr>limit = byte_limit, parent = par, consumption = 0,
               consumption_metric = None, auto_unregister = False,
               query_id = TUniqueId_default, pool_name = [], all_trackers = [],
               limit_trackers = [], child_trackers = [], child_tracker_it = None,
               num_gcs_metric = None, bytes_freed_by_last_gc_metric = None\<rparr>), next_addr := Suc (next_addr w)\<rparr>"
  from assms(1) obtain w2 where add: "(case par of None \<Rightarrow> Inr w1 | Some p \<Rightarrow> AddChildTracker p (next_addr w) w1) = Inr w2"
    and init: "Init (next_addr w) w2 = Some (Inr w')"
    by (auto simp: MemTracker_new_def Let_def w1_def split: sum.splits option.splits)
  have "cached w1 a = cached w a" using assms(2) by (simp add: cached_def w1_def)
  moreover have "cached w2 a = cached w1 a"
    using add by (cases par) (auto simp: AddChildTracker_cached)
  moreover have "cached w' a = cached w2 a" using init assms(2) by (rule Init_cached)
  ultimately show ?thesis by simp
qed

lemma MemTracker_destructor_cached:
  "MemTracker_destructor this w = Inr w' \<Longrightarrow> a \<noteq> this \<Longrightarrow> cached w' a = cached w a"
  by (auto simp: MemTracker_destructor_def cached_def UnregisterFromParent_def Let_def
      split: option.splits if_splits sum.splits)

lemma MemTracker_destructor_gone:
  "MemTracker_destructor this w = Inr w' \<Longrightarrow> heap w' this = None"
  by (auto simp: MemTracker_destructor_def split: option.splits if_splits sum.splits)

lemma shared_ptr_reset_cached:
  assumes "shared_ptr_reset this w = Inr w'" and "heap w' a \<noteq> None"
  shows "cached w' a = cached w a"
proof (cases "use_count w this = 1")
  case True
  define w0 where "w0 = w\<lparr>use_count := (use_count w)(this := 0)\<rparr>"
  from assms(1) True have d: "MemTracker_destructor this w0 = Inr w'"
    by (simp add: shared_ptr_reset_def w0_def)
  from MemTracker_destructor_gone [OF d] assms(2) have "a \<noteq> this" by auto
  with d have "cached w' a = cached w0 a" by (rule MemTracker_destructor_cached)
  then show ?thesis by (simp add: cached_def w0_def)
next
  case False
  with assms(1) show ?thesis
    by (auto simp: shared_ptr_reset_def cached_def split: if_splits)
qed

lemma MemTracker_new_addr:
  "MemTracker_new byte_limit par w = Some (Inr (b, w')) \<Longrightarrow> b = next_addr w"
  by (auto simp: MemTracker_new_def Let_def split: sum.splits option.splits)

lemma GetRequestPoolMemTracker_cached:
  assumes "GetRequestPoolMemTracker pool par w = Some (Inr (r, w'))" and "a \<noteq> next_addr w"
  shows "cached w' a = cached w a"
proof (cases "pool_to_mem_trackers w pool")
  case (Some tr)
  with assms(1) have "w' = w"
    by (auto simp: GetRequestPoolMemTracker_def split: if_splits option.splits)
  then show ?thesis by simp
next
  case None
  show ?thesis
  proof (cases par)
    case nopar: None
    with None assms(1) have "w' = w"
      by (auto simp: GetRequestPoolMemTracker_def split: if_splits)
    then show ?thesis by simp
  next
    case (Some p)
    with None assms(1) obtain b w1 t where new: "MemTracker_new (- 1) (Some p) w = Some (Inr (b, w1))"
      and w': "w' = w1\<lparr>heap := (heap w1)(b \<mapsto> t\<lparr>auto_unregister := True, pool_name := pool\<rparr>),
                       pool_to_mem_trackers := (pool_to_mem_trackers w1)(pool \<mapsto> b)\<rparr>"
      by (auto simp: GetRequestPoolMemTracker_def split: if_splits option.splits sum.splits)
    from new have b: "b = next_addr w" by (rule MemTracker_new_addr)
    from new assms(2) have "cached w1 a = cached w a" by (rule MemTracker_new_cached)
    moreover have "cached w' a = cached w1 a" using assms(2) b by (simp add: w' cached_def)
    ultimately show ?thesis by simp
  qed
qed

lemma GetQueryMemTracker_cached:
  assumes "GetQueryMemTracker pm qid byte_limit par w = Some (Inr (r, w'))" and "a \<noteq> next_addr w"
  shows "cached w' a = cached w a"
proof -
  define w0 where "w0 = (if byte_limit \<noteq> - 1 \<and> pm <s byte_limit
                then w\<lparr>warnings := warnings w @ [MemLimitExceedsPhysicalMemory byte_limit pm]\<rparr>
                else w)"
  have c0: "cached w0 a = cached w a" and n0: "next_addr w0 = next_addr w"
    by (simp_all add: w0_def cached_def)
  show ?thesis
  proof (cases "request_to_mem_trackers w0 qid")
    case (Some tr)
    with assms(1) have "heap w' = heap w0"
      by (auto simp: GetQueryMemTracker_def Let_def simp flip: w0_def split: if_splits option.splits)
    then show ?thesis using c0 by (simp add: cached_def)
  next
    case None
    with assms(1) obtain b w1 t where new: "MemTracker_new byte_limit par w0 = Some (Inr (b, w1))"
      and w': "w' = w1\<lparr>heap := (heap w1)(b \<mapsto> t\<lparr>auto_unregister := True, query_id := qid\<rparr>),
                       request_to_mem_trackers := (request_to_mem_trackers w1)(qid \<mapsto> b),
                       use_count := (use_count w1)(b := 1)\<rparr>"
      by (auto simp: GetQueryMemTracker_def Let_def simp flip: w0_def split: if_splits option.splits sum.splits)
    from MemTracker_new_addr [OF new] n0 have b: "b = next_addr w" by simp
    from assms(2) n0 have "a \<noteq> next_addr w0" by simp
    with new have "cached w1 a = cached w0 a" by (rule MemTracker_new_cached)
    moreover have "cached w' a = cached w1 a" using assms(2) b by (simp add: w' cached_def)
    ultimately show ?thesis using c0 by simp
  qed
qed

lemma step_cached:
  assumes "step x w = Some (Inr w')" and "heap w (next_addr w) = None"
    and "heap w a \<noteq> None" and "heap w' a \<noteq> None"
  shows "cached w' a = cached w a"
proof -
  from assms(2,3) have fresh: "a \<noteq> next_addr w" by auto
  show ?thesis
  proof (cases x)
    case (New bl par)
    with assms(1) obtain b where "MemTracker_new bl par w = Some (Inr (b, w'))"
      by (cases "MemTracker_new bl par w") (auto simp: map_sum_def split: sum.splits)
    then show ?thesis using fresh by (rule MemTracker_new_cached)
  next
    case (Delete b)
    with assms(1) have d: "MemTracker_destructor b w = Inr w'" by simp
    from MemTracker_destructor_gone [OF d] assms(4) have "a \<noteq> b" by auto
    with d show ?thesis by (rule MemTracker_destructor_cached)
  next
    case (GetRequestPool pool par)
    with assms(1) obtain r where "GetRequestPoolMemTracker pool par w = Some (Inr (r, w'))"
      by (cases "GetRequestPoolMemTracker pool par w") (auto simp: map_sum_def split: sum.splits)
    then show ?thesis using fresh by (rule GetRequestPoolMemTracker_cached)
  next
    case (GetQuery pm qid bl par)
    with assms(1) obtain r where "GetQueryMemTracker pm qid bl par w = Some (Inr (r, w'))"
      by (cases "GetQueryMemTracker pm qid bl par w") (auto simp: map_sum_def split: sum.splits)
    then show ?thesis using fresh by (rule GetQueryMemTracker_cached)
  next
    case (Reset b)
    with assms(1) have "shared_ptr_reset b w = Inr w'" by simp
    then show ?thesis using assms(4) by (rule shared_ptr_reset_cached)
  next
    case (Unregister b)
    with assms(1) have "UnregisterFromParent b w = Inr w'" by simp
    then show ?thesis by (rule UnregisterFromParent_cached)
  qed
qed

lemma Init_effect:
  assumes "Init this w = Some (Inr w')"
  shows "\<exists>t alls lims. heap w this = Some t
           \<and> w' = w\<lparr>heap := (heap w)(this \<mapsto> t\<lparr>all_trackers := alls, limit_trackers := lims\<rparr>)\<rparr>"
proof -
  from assms obtain t alls lims where "heap w this = Some t"
    and "w' = w\<lparr>heap := (heap w)(this \<mapsto> t\<lparr>all_trackers := alls, limit_trackers := lims\<rparr>)\<rparr>"
    by (auto simp: Init_def split: option.splits if_splits sum.splits)
  then show ?thesis by blast
qed

lemma AddChildTracker_effect:
  assumes "AddChildTracker p c w = Inr w'"
  shows "\<exists>tp tc. heap w p = Some tp \<and> heap w c = Some tc
           \<and> w' = w\<lparr>heap := (heap w)(p \<mapsto> tp\<lparr>child_trackers := child_trackers tp @ [c]\<rparr>,
                                       c \<mapsto> tc\<lparr>child_tracker_it := Some c\<rparr>)\<rparr>"
  using assms by (auto simp: AddChildTracker_def split: option.splits)

lemma MemTracker_new_effect:
  assumes "MemTracker_new byte_limit par w = Some (Inr (a, w'))"
  shows "a = next_addr w \<and> next_addr w' = Suc (next_addr w)
         \<and> request_to_mem_trackers w' = request_to_mem_trackers w
         \<and> pool_to_mem_trackers w' = pool_to_mem_trackers w
         \<and> use_count w' = use_count w \<and> warnings w' = warnings w
         \<and> (\<exists>t. heap w' a = Some t \<and> limit t = byte_limit \<and> parent t = par
                \<and> consumption t = 0 \<and> query_id t = TUniqueId_default \<and> pool_name t = []
                \<and> \<not> auto_unregister t)"
proof -
  define t0 where "t0 = \<lparr>limit = byte_limit, parent = par, consumption = 0,
               consumption_metric = None, auto_unregister = False,
               query_id = TUniqueId_default, pool_name = [], all_trackers = [],
               limit_trackers = [], child_trackers = [], child_tracker_it = None,
               num_gcs_metric = None, bytes_freed_by_last_gc_metric = None\<rparr>"
  define w1 where "w1 = w\<lparr>heap := (heap w)(next_addr w \<mapsto> t0), next_addr := Suc (next_addr w)\<rparr>"
  from assms obtain w2 where a: "a = next_addr w"
    and add: "(case par of None \<Rightarrow> Inr w1 | Some p \<Rightarrow> AddChildTracker p a w1) = Inr w2"
    and init: "Init a w2 = Some (Inr w')"
    by (auto simp: MemTracker_new_def Let_def w1_def t0_def split: sum.splits option.splits)
  have w2: "next_addr w2 = Suc (next_addr w) \<and> request_to_mem_trackers w2 = request_to_mem_trackers w
         \<and> pool_to_mem_trackers w2 = pool_to_mem_trackers w
         \<and> use_count w2 = use_count w \<and> warnings w2 = warnings w
         \<and> (\<exists>t. heap w2 a = Some t \<and> limit t = byte_limit \<and> parent t = par
                \<and> consumption t = 0 \<and> query_id t = TUniqueId_default \<and> pool_name t = []
                \<and> \<not> auto_unregister t)"
  proof (cases par)
    case None
    with add have "w2 = w1" by simp
    then show ?thesis by (simp add: w1_def t0_def a)
  next
    case (Some p)
    with add have "AddChildTracker p a w1 = Inr w2" by simp
    from AddChildTracker_effect [OF this] show ?thesis
      by (auto simp: w1_def t0_def a)
  qed
  from Init_effect [OF init] w2 show ?thesis using a by auto
qed

section \<open>Running the model on given inputs\<close>

lemmas eval_defs = the_world_def empty_world_def MemTracker_new_def Init_def Init_loop.simps
  AddChildTracker_def UnregisterFromParent_def MemTracker_destructor_def shared_ptr_reset_def
  GetQueryMemTracker_def GetRequestPoolMemTracker_def has_limit_def Let_def cached_def
  limited_def TUniqueId_default_def process_world_def child_world_def
  interned_world_def word_sless_alt word_sle_eq returned_tracker_def

text \<open>
  C6: a tracker constructed under any parent chain \<open>xs\<close> (the parent, its parent, and so
  on up to the root; empty for a null parent) comes back with \<open>all_trackers_\<close> equal to
  itself followed by \<open>xs\<close>, which is its own ancestor chain nearest first, and with
  \<open>limit_trackers_\<close> equal to the members of that list that have a limit, in the same
  order; the loop of \<open>Init\<close> ends. No operation of the module changes the two vectors of
  a tracker that exists before and after it.
\<close>

theorem Init_caches_ancestor_chain:
  "(heap w (next_addr w) = None \<and> parent_chain (heap w) par xs \<and> \<not> byte_limit <s - 1 \<longrightarrow>
      (\<exists>w' t. MemTracker_new byte_limit par w = Some (Inr (next_addr w, w'))
         \<and> heap w' (next_addr w) = Some t
         \<and> all_trackers t = next_addr w # xs
         \<and> limit_trackers t = filter (limited (heap w')) (next_addr w # xs)
         \<and> parent_chain (heap w') (Some (next_addr w)) (next_addr w # xs)))
   \<and> (step x v = Some (Inr v') \<and> heap v (next_addr v) = None
        \<and> heap v a \<noteq> None \<and> heap v' a \<noteq> None \<longrightarrow> cached v' a = cached v a)"
proof (rule conjI)
  show "heap w (next_addr w) = None \<and> parent_chain (heap w) par xs \<and> \<not> byte_limit <s - 1 \<longrightarrow>
      (\<exists>w' t. MemTracker_new byte_limit par w = Some (Inr (next_addr w, w'))
         \<and> heap w' (next_addr w) = Some t
         \<and> all_trackers t = next_addr w # xs
         \<and> limit_trackers t = filter (limited (heap w')) (next_addr w # xs)
         \<and> parent_chain (heap w') (Some (next_addr w)) (next_addr w # xs))"
  proof
    assume h: "heap w (next_addr w) = None \<and> parent_chain (heap w) par xs \<and> \<not> byte_limit <s - 1"
    show "\<exists>w' t. MemTracker_new byte_limit par w = Some (Inr (next_addr w, w'))
         \<and> heap w' (next_addr w) = Some t
         \<and> all_trackers t = next_addr w # xs
         \<and> limit_trackers t = filter (limited (heap w')) (next_addr w # xs)
         \<and> parent_chain (heap w') (Some (next_addr w)) (next_addr w # xs)"
      by (rule MemTracker_new_chain) (simp_all add: h)
  qed
next
  show "step x v = Some (Inr v') \<and> heap v (next_addr v) = None
        \<and> heap v a \<noteq> None \<and> heap v' a \<noteq> None \<longrightarrow> cached v' a = cached v a"
  proof
    assume h: "step x v = Some (Inr v') \<and> heap v (next_addr v) = None
        \<and> heap v a \<noteq> None \<and> heap v' a \<noteq> None"
    show "cached v' a = cached v a"
      by (rule step_cached [of x v v']) (simp_all add: h)
  qed
qed

theorem Init_caches_ancestor_chain_witness:
  "heap process_world (next_addr process_world) = None
   \<and> parent_chain (heap process_world) (Some 0) [0]
   \<and> \<not> (100 :: int64_t) <s - 1
   \<and> map_option all_trackers (returned_tracker (MemTracker_new 100 (Some 0) process_world))
       = Some [1, 0]
   \<and> map_option limit_trackers (returned_tracker (MemTracker_new 100 (Some 0) process_world))
       = Some [1]
   \<and> step (Unregister 1) child_world \<noteq> None
   \<and> heap child_world (next_addr child_world) = None
   \<and> heap child_world 1 \<noteq> None
   \<and> heap (the_world (step (Unregister 1) child_world)) 1 \<noteq> None
   \<and> cached (the_world (step (Unregister 1) child_world)) 1 = cached child_world 1"
proof -
  let ?v' = "the_world (step (Unregister 1) child_world)"
  have nxt: "next_addr process_world = 1" by (simp add: eval_defs)
  have h1: "heap process_world (next_addr process_world) = None" by (simp add: eval_defs)
  have h2: "parent_chain (heap process_world) (Some 0) [0]" by (simp add: eval_defs)
  have h3: "\<not> (100 :: int64_t) <s - 1" by (simp add: word_sless_alt)
  have s1: "step (Unregister 1) child_world = Some (Inr ?v')" by (simp add: eval_defs)
  have s2: "heap child_world (next_addr child_world) = None" by (simp add: eval_defs)
  have s3: "heap child_world 1 \<noteq> None" by (simp add: eval_defs)
  have s4: "heap ?v' 1 \<noteq> None" by (simp add: eval_defs)
  note inst = Init_caches_ancestor_chain
      [of process_world "Some 0" "[0]" 100 "Unregister 1" child_world ?v' 1]
  from inst h1 h2 h3 obtain w' t where
    new: "MemTracker_new 100 (Some 0) process_world = Some (Inr (next_addr process_world, w'))"
    and t: "heap w' (next_addr process_world) = Some t"
    and alls: "all_trackers t = next_addr process_world # [0]"
    by blast
  have r: "returned_tracker (MemTracker_new 100 (Some 0) process_world) = Some t"
    unfolding returned_tracker_def new by (simp add: t)
  have a: "map_option all_trackers (returned_tracker (MemTracker_new 100 (Some 0) process_world))
      = Some [1, 0]"
    unfolding r using alls nxt by simp
  have l: "map_option limit_trackers
      (returned_tracker (MemTracker_new 100 (Some 0) process_world)) = Some [1]"
    by (simp add: eval_defs)
  from inst s1 s2 s3 s4 have c: "cached ?v' 1 = cached child_world 1" by blast
  from s1 have s0: "step (Unregister 1) child_world \<noteq> None" by simp
  from h1 h2 h3 a l s0 s2 s3 s4 c show ?thesis by blast
qed

section \<open>The interning registries\<close>

lemma nonneg_mem_limit_ok:
  fixes pm bl :: int64_t
  assumes "0 \<le>s pm" and "pm <s bl"
  shows "\<not> bl <s - 1"
  using assms by (simp add: word_sless_alt word_sle_eq)

text \<open>
  C3, as stated, at physical memory 100 and a configured limit of 200 for a query that
  has no tracker yet: the limit exceeds physical memory, and the limit of the tracker
  that comes back is 200, the configured limit itself.
\<close>

theorem GetQueryMemTracker_limit_not_clamped:
  "map_option limit (returned_tracker
      (GetQueryMemTracker 100 \<lparr>hi = 0, lo = 7\<rparr> 200 None empty_world)) = Some 200
   \<and> (100 :: int64_t) <s 200"
  by (simp add: eval_defs)

text \<open>
  C3, amended: when the configured limit is not \<open>-1\<close> and exceeds physical memory, a
  warning with both numbers is logged, and the tracker that \<open>GetQueryMemTracker\<close> returns
  has the configured limit itself, unclamped; the call does return a new tracker when
  the query has none yet, the parent chain is sound and physical memory is not negative.
\<close>

theorem GetQueryMemTracker_warns_and_keeps_limit:
  assumes "byte_limit \<noteq> - 1" and "physical_mem <s byte_limit"
  shows "(GetQueryMemTracker physical_mem qid byte_limit par w = Some (Inr (a, w')) \<longrightarrow>
            map_option limit (heap w' a) = Some byte_limit
            \<and> warnings w' = warnings w
                @ [MemLimitExceedsPhysicalMemory byte_limit physical_mem])
       \<and> (request_to_mem_trackers w qid = None \<and> heap w (next_addr w) = None
            \<and> parent_chain (heap w) par xs \<and> 0 \<le>s physical_mem \<longrightarrow>
            (\<exists>w''. GetQueryMemTracker physical_mem qid byte_limit par w
                     = Some (Inr (next_addr w, w''))))"
proof -
  define w0 where "w0 = w\<lparr>warnings := warnings w
                        @ [MemLimitExceedsPhysicalMemory byte_limit physical_mem]\<rparr>"
  have installed: "GetQueryMemTracker physical_mem qid byte_limit par w = Some (Inr (a, w')) \<longrightarrow>
            map_option limit (heap w' a) = Some byte_limit
            \<and> warnings w' = warnings w
                @ [MemLimitExceedsPhysicalMemory byte_limit physical_mem]"
  proof
    assume call: "GetQueryMemTracker physical_mem qid byte_limit par w = Some (Inr (a, w'))"
    show "map_option limit (heap w' a) = Some byte_limit
            \<and> warnings w' = warnings w
                @ [MemLimitExceedsPhysicalMemory byte_limit physical_mem]"
    proof (cases "request_to_mem_trackers w qid")
      case (Some tr)
      with assms call show ?thesis
        by (auto simp: GetQueryMemTracker_def Let_def split: if_splits option.splits)
    next
      case None
      with assms call obtain w1 t
        where new: "MemTracker_new byte_limit par w0 = Some (Inr (a, w1))"
          and w': "w' = w1\<lparr>heap := (heap w1)
                              (a \<mapsto> t\<lparr>auto_unregister := True, query_id := qid\<rparr>),
                         request_to_mem_trackers := (request_to_mem_trackers w1)(qid \<mapsto> a),
                         use_count := (use_count w1)(a := 1)\<rparr>"
          and t: "heap w1 a = Some t"
        by (auto simp: GetQueryMemTracker_def Let_def w0_def
            split: if_splits option.splits sum.splits)
      from MemTracker_new_effect [OF new] t
      have "limit t = byte_limit" "warnings w1 = warnings w0" by auto
      then show ?thesis by (simp add: w' w0_def)
    qed
  qed
  have returns: "request_to_mem_trackers w qid = None \<and> heap w (next_addr w) = None
            \<and> parent_chain (heap w) par xs \<and> 0 \<le>s physical_mem \<longrightarrow>
            (\<exists>w''. GetQueryMemTracker physical_mem qid byte_limit par w
                     = Some (Inr (next_addr w, w'')))"
  proof
    assume h: "request_to_mem_trackers w qid = None \<and> heap w (next_addr w) = None
            \<and> parent_chain (heap w) par xs \<and> 0 \<le>s physical_mem"
    then have ok: "\<not> byte_limit <s - 1"
      using assms(2) nonneg_mem_limit_ok [of physical_mem byte_limit] by simp
    have fresh: "heap w0 (next_addr w0) = None" using h by (simp add: w0_def)
    have chain: "parent_chain (heap w0) par xs" using h by (simp add: w0_def)
    from MemTracker_new_chain [OF fresh chain ok]
    obtain w1 t where "MemTracker_new byte_limit par w0 = Some (Inr (next_addr w0, w1))"
      and "heap w1 (next_addr w0) = Some t" by blast
    then show "\<exists>w''. GetQueryMemTracker physical_mem qid byte_limit par w
                     = Some (Inr (next_addr w, w''))"
      using assms h by (simp add: GetQueryMemTracker_def Let_def w0_def)
  qed
  show ?thesis by (rule conjI [OF installed returns])
qed

theorem GetQueryMemTracker_warns_and_keeps_limit_witness:
  "(200 :: int64_t) \<noteq> - 1 \<and> (100 :: int64_t) <s 200
   \<and> request_to_mem_trackers empty_world \<lparr>hi = 0, lo = 7\<rparr> = None
   \<and> heap empty_world (next_addr empty_world) = None
   \<and> parent_chain (heap empty_world) None [] \<and> (0 :: int64_t) \<le>s 100
   \<and> (\<exists>w'. GetQueryMemTracker 100 \<lparr>hi = 0, lo = 7\<rparr> 200 None empty_world
              = Some (Inr (0, w'))
         \<and> map_option limit (heap w' 0) = Some 200
         \<and> warnings w' = [MemLimitExceedsPhysicalMemory 200 100])"
proof -
  have h1: "(200 :: int64_t) \<noteq> - 1" by simp
  have h2: "(100 :: int64_t) <s 200" by (simp add: word_sless_alt)
  have h3: "request_to_mem_trackers empty_world \<lparr>hi = 0, lo = 7\<rparr> = None"
    by (simp add: empty_world_def)
  have h4: "heap empty_world (next_addr empty_world) = None" by (simp add: empty_world_def)
  have h5: "parent_chain (heap empty_world) None []" by simp
  have h6: "(0 :: int64_t) \<le>s 100" by (simp add: word_sle_eq)
  have n: "next_addr empty_world = 0" and l: "warnings empty_world = []"
    by (simp_all add: empty_world_def)
  note inst = GetQueryMemTracker_warns_and_keeps_limit [OF h1 h2,
      of "\<lparr>hi = 0, lo = 7\<rparr>" None empty_world 0 _ "[]"]
  from inst [THEN conjunct2] h3 h4 h5 h6 n
  obtain w' where call: "GetQueryMemTracker 100 \<lparr>hi = 0, lo = 7\<rparr> 200 None empty_world
      = Some (Inr (0, w'))" by auto
  from inst [of w', THEN conjunct1] call l
  have "map_option limit (heap w' 0) = Some 200
      \<and> warnings w' = [MemLimitExceedsPhysicalMemory 200 100]" by simp
  with call h1 h2 h3 h4 h5 h6 show ?thesis by blast
qed

text \<open>
  C10: for a pool name that is not empty and has no tracker registered, a call with a
  null parent returns null and leaves the process as it was; whenever a call returns,
  the result is a tracker exactly when the parent is not null, and then it is the new
  object, registered under the name, with the name, \<open>auto_unregister_\<close>, no limit and the
  given parent; and with a parent whose chain is sound the call does return.
\<close>

theorem GetRequestPoolMemTracker_lookup_only:
  assumes name: "pool \<noteq> []" and unreg: "pool_to_mem_trackers w pool = None"
  shows "GetRequestPoolMemTracker pool None w = Some (Inr (None, w))
     \<and> (GetRequestPoolMemTracker pool par w = Some (Inr (r, w')) \<longrightarrow>
          (r = None \<longleftrightarrow> par = None) \<and> (par = None \<longrightarrow> w' = w)
          \<and> (par \<noteq> None \<longrightarrow> r = Some (next_addr w) \<and> pool_to_mem_trackers w' pool = r
                \<and> (\<exists>t. heap w' (next_addr w) = Some t \<and> pool_name t = pool
                       \<and> auto_unregister t \<and> limit t = - 1 \<and> parent t = par)))
     \<and> (heap w (next_addr w) = None \<and> parent_chain (heap w) (Some p) xs \<longrightarrow>
          (\<exists>w'. GetRequestPoolMemTracker pool (Some p) w = Some (Inr (Some (next_addr w), w'))))"
proof -
  have lookup: "GetRequestPoolMemTracker pool None w = Some (Inr (None, w))"
    using name unreg by (simp add: GetRequestPoolMemTracker_def)
  have created: "GetRequestPoolMemTracker pool par w = Some (Inr (r, w')) \<longrightarrow>
          (r = None \<longleftrightarrow> par = None) \<and> (par = None \<longrightarrow> w' = w)
          \<and> (par \<noteq> None \<longrightarrow> r = Some (next_addr w) \<and> pool_to_mem_trackers w' pool = r
                \<and> (\<exists>t. heap w' (next_addr w) = Some t \<and> pool_name t = pool
                       \<and> auto_unregister t \<and> limit t = - 1 \<and> parent t = par))"
  proof
  assume call: "GetRequestPoolMemTracker pool par w = Some (Inr (r, w'))"
  show "(r = None \<longleftrightarrow> par = None) \<and> (par = None \<longrightarrow> w' = w)
          \<and> (par \<noteq> None \<longrightarrow> r = Some (next_addr w) \<and> pool_to_mem_trackers w' pool = r
                \<and> (\<exists>t. heap w' (next_addr w) = Some t \<and> pool_name t = pool
                       \<and> auto_unregister t \<and> limit t = - 1 \<and> parent t = par))"
  proof (cases par)
    case None
    with call name unreg show ?thesis by (simp add: GetRequestPoolMemTracker_def)
  next
    case (Some q)
    with call name unreg obtain a w1 t where new: "MemTracker_new (- 1) (Some q) w = Some (Inr (a, w1))"
      and t: "heap w1 a = Some t" and r: "r = Some a"
      and w': "w' = w1\<lparr>heap := (heap w1)(a \<mapsto> t\<lparr>auto_unregister := True, pool_name := pool\<rparr>),
                       pool_to_mem_trackers := (pool_to_mem_trackers w1)(pool \<mapsto> a)\<rparr>"
      by (auto simp: GetRequestPoolMemTracker_def split: option.splits sum.splits)
    from MemTracker_new_effect [OF new] t have "a = next_addr w" "limit t = - 1" "parent t = Some q"
      by auto
    then show ?thesis using Some r by (simp add: w')
  qed
  qed
  have returns: "heap w (next_addr w) = None \<and> parent_chain (heap w) (Some p) xs \<longrightarrow>
          (\<exists>w'. GetRequestPoolMemTracker pool (Some p) w = Some (Inr (Some (next_addr w), w')))"
  proof
  assume "heap w (next_addr w) = None \<and> parent_chain (heap w) (Some p) xs"
  then have fresh: "heap w (next_addr w) = None" and chain: "parent_chain (heap w) (Some p) xs"
    by simp_all
  have "\<not> (- 1 :: int64_t) <s - 1" by simp
  from MemTracker_new_chain [OF fresh chain this]
  obtain w1 t where "MemTracker_new (- 1) (Some p) w = Some (Inr (next_addr w, w1))"
    and "heap w1 (next_addr w) = Some t" by blast
  then show "\<exists>w'. GetRequestPoolMemTracker pool (Some p) w = Some (Inr (Some (next_addr w), w'))"
    using name unreg by (simp add: GetRequestPoolMemTracker_def)
  qed
  show ?thesis by (rule conjI [OF lookup conjI [OF created returns]])
qed

theorem GetRequestPoolMemTracker_lookup_only_witness:
  "''pool'' \<noteq> [] \<and> pool_to_mem_trackers process_world ''pool'' = None
   \<and> heap process_world
        (next_addr process_world) = None
   \<and> parent_chain (heap process_world) (Some 0) [0]
   \<and> GetRequestPoolMemTracker ''pool'' None process_world
       = Some (Inr (None, process_world))
   \<and> (\<exists>w'. GetRequestPoolMemTracker ''pool'' (Some 0)
               process_world = Some (Inr (Some 1, w'))
          \<and> pool_to_mem_trackers w' ''pool'' = Some 1)"
proof -
  let ?w = "process_world"
  have h1: "''pool'' \<noteq> []" by simp
  have h2: "pool_to_mem_trackers ?w ''pool'' = None" by (simp add: eval_defs)
  have h3: "heap ?w (next_addr ?w) = None" by (simp add: eval_defs)
  have h4: "parent_chain (heap ?w) (Some 0) [0]" by (simp add: eval_defs)
  have n: "next_addr ?w = 1" by (simp add: eval_defs)
  note inst = GetRequestPoolMemTracker_lookup_only [OF h1 h2, of "Some 0" "Some 1" _ 0 "[0]"]
  from inst [THEN conjunct1]
  have a: "GetRequestPoolMemTracker ''pool'' None ?w = Some (Inr (None, ?w))" .
  from inst [THEN conjunct2, THEN conjunct2] h3 h4 n
  obtain w' where call: "GetRequestPoolMemTracker ''pool'' (Some 0) ?w = Some (Inr (Some 1, w'))"
    by auto
  from inst [of w', THEN conjunct2, THEN conjunct1] call
  have "pool_to_mem_trackers w' ''pool'' = Some 1" by simp
  with call a h1 h2 h3 h4 show ?thesis by blast
qed

text \<open>
  C9: the query id of a tracker that was never interned is the default \<open>TUniqueId\<close>, and
  the destructor erases the entry of that id from the map. In \<open>interned_world\<close> the
  tracker of the query with the default id is at 1, interned and owned once, and a call
  for that id returns it. Then the tracker at 2, which nobody interned, is destroyed:
  tracker 1 is still there and owned, the map has lost its entry, and the next
  \<open>GetQueryMemTracker\<close> for the same id constructs a second tracker, at 3.
\<close>

theorem GetQueryMemTracker_second_instance_for_default_id:
  "map_option (fst \<circ> projr) (GetQueryMemTracker 1000 TUniqueId_default (- 1) (Some 0)
       interned_world) = Some 1
   \<and> heap (the_world (step (Delete 2) interned_world)) 1 \<noteq> None
   \<and> use_count (the_world (step (Delete 2) interned_world)) 1 = 1
   \<and> map_option query_id
        (heap (the_world (step (Delete 2) interned_world)) 1) = Some TUniqueId_default
   \<and> request_to_mem_trackers
        (the_world (step (Delete 2) interned_world)) TUniqueId_default = None
   \<and> map_option (fst \<circ> projr) (GetQueryMemTracker 1000 TUniqueId_default (- 1) (Some 0)
       (the_world (step (Delete 2) interned_world))) = Some 3"
  by (simp add: eval_defs)

lemma AddChildTracker_view: "AddChildTracker p c w = Inr w' \<Longrightarrow> same_view w w'"
  by (auto simp: AddChildTracker_def same_view_def qids_def fun_eq_iff split: option.splits)

lemma UnregisterFromParent_view: "UnregisterFromParent c w = Inr w' \<Longrightarrow> same_view w w'"
  by (auto simp: UnregisterFromParent_def Let_def same_view_def qids_def fun_eq_iff split: option.splits if_splits)

lemma Init_view: "Init this w = Some (Inr w') \<Longrightarrow> same_view w w'"
  by (auto simp: Init_def same_view_def qids_def fun_eq_iff split: option.splits if_splits sum.splits)

lemma same_view_trans: "same_view a b \<Longrightarrow> same_view b c \<Longrightarrow> same_view a c"
  by (simp add: same_view_def)

lemma MemTracker_new_view:
  assumes "MemTracker_new byte_limit par w = Some (Inr (a, w'))"
  shows "allocated TUniqueId_default w w' \<and> request_to_mem_trackers w' = request_to_mem_trackers w"
proof -
  define w1 where "w1 = w\<lparr>heap := (heap w)(next_addr w \<mapsto>
      \<lparr>limit = byte_limit, parent = par, consumption = 0,
               consumption_metric = None, auto_unregister = False,
               query_id = TUniqueId_default, pool_name = [], all_trackers = [],
               limit_trackers = [], child_trackers = [], child_tracker_it = None,
               num_gcs_metric = None, bytes_freed_by_last_gc_metric = None\<rparr>), next_addr := Suc (next_addr w)\<rparr>"
  from assms obtain w2 where add: "(case par of None \<Rightarrow> Inr w1 | Some p \<Rightarrow> AddChildTracker p (next_addr w) w1) = Inr w2"
    and init: "Init (next_addr w) w2 = Some (Inr w')"
    by (auto simp: MemTracker_new_def Let_def w1_def split: sum.splits option.splits)
  have "same_view w1 w2"
  proof (cases par)
    case None
    with add show ?thesis by (simp add: same_view_def)
  next
    case (Some p)
    with add show ?thesis by (simp add: AddChildTracker_view)
  qed
  moreover have "same_view w2 w'" using init by (rule Init_view)
  ultimately have "same_view w1 w'" by (rule same_view_trans)
  then show ?thesis
    by (auto simp: same_view_def allocated_def w1_def qids_def fun_eq_iff)
qed

lemma MemTracker_destructor_view:
  assumes "MemTracker_destructor a w = Inr w'"
  shows "\<exists>q. qids w a = Some q \<and> qids w' = (qids w)(a := None)
     \<and> request_to_mem_trackers w' = (request_to_mem_trackers w)(q := None)
     \<and> next_addr w' = next_addr w"
proof -
  from assms obtain t w1 where t: "heap w a = Some t"
    and u: "(if auto_unregister t then UnregisterFromParent a w else Inr w) = Inr w1"
    and w': "w' = w1\<lparr>request_to_mem_trackers := (request_to_mem_trackers w1)(query_id t := None),
                         pool_to_mem_trackers := (pool_to_mem_trackers w1)(pool_name t := None),
                         heap := (heap w1)(a := None)\<rparr>"
    by (auto simp: MemTracker_destructor_def split: option.splits if_splits sum.splits)
  have "same_view w w1"
  proof (cases "auto_unregister t")
    case True
    with u show ?thesis by (simp add: UnregisterFromParent_view)
  next
    case False
    with u show ?thesis by (simp add: same_view_def)
  qed
  then show ?thesis using t
    by (auto simp: same_view_def w' qids_def fun_eq_iff)
qed


lemma shared_ptr_reset_view:
  assumes "shared_ptr_reset a w = Inr w'"
  shows "same_view w w' \<or> (\<exists>q. qids w a = Some q \<and> qids w' = (qids w)(a := None)
     \<and> request_to_mem_trackers w' = (request_to_mem_trackers w)(q := None)
     \<and> next_addr w' = next_addr w)"
proof (cases "use_count w a = 1")
  case True
  define w0 where "w0 = w\<lparr>use_count := (use_count w)(a := 0)\<rparr>"
  from assms True have "MemTracker_destructor a w0 = Inr w'"
    by (simp add: shared_ptr_reset_def w0_def)
  moreover have "qids w0 = qids w" "request_to_mem_trackers w0 = request_to_mem_trackers w"
    "next_addr w0 = next_addr w"
    by (simp_all add: w0_def qids_def fun_eq_iff)
  ultimately show ?thesis using MemTracker_destructor_view [of a w0 w'] by simp
next
  case False
  with assms have "same_view w w'"
    by (auto simp: shared_ptr_reset_def same_view_def qids_def split: if_splits)
  then show ?thesis by simp
qed

lemma GetRequestPoolMemTracker_view:
  assumes "GetRequestPoolMemTracker pool par w = Some (Inr (r, w'))"
  shows "same_view w w' \<or> (allocated TUniqueId_default w w'
           \<and> request_to_mem_trackers w' = request_to_mem_trackers w)"
proof (cases "pool_to_mem_trackers w pool = None \<and> par \<noteq> None")
  case False
  with assms have "w' = w"
    by (auto simp: GetRequestPoolMemTracker_def split: if_splits option.splits)
  then show ?thesis by (simp add: same_view_def)
next
  case True
  with assms obtain p b w1 t where new: "MemTracker_new (- 1) (Some p) w = Some (Inr (b, w1))"
    and t: "heap w1 b = Some t"
    and w': "w' = w1\<lparr>heap := (heap w1)(b \<mapsto> t\<lparr>auto_unregister := True, pool_name := pool\<rparr>),
                     pool_to_mem_trackers := (pool_to_mem_trackers w1)(pool \<mapsto> b)\<rparr>"
    by (auto simp: GetRequestPoolMemTracker_def split: if_splits option.splits sum.splits)
  have "same_view w1 w'" using t by (auto simp: same_view_def w' qids_def fun_eq_iff)
  with MemTracker_new_view [OF new] show ?thesis
    by (auto simp: same_view_def allocated_def)
qed

lemma GetQueryMemTracker_view:
  assumes "GetQueryMemTracker pm q byte_limit par w = Some (Inr (a, w'))"
  shows "(request_to_mem_trackers w q = Some a \<and> same_view w w')
       \<or> (request_to_mem_trackers w q = None \<and> a = next_addr w \<and> allocated q w w'
           \<and> request_to_mem_trackers w' = (request_to_mem_trackers w)(q \<mapsto> a))"
proof -
  define w0 where "w0 = (if byte_limit \<noteq> - 1 \<and> pm <s byte_limit
                then w\<lparr>warnings := warnings w @ [MemLimitExceedsPhysicalMemory byte_limit pm]\<rparr>
                else w)"
  have v0: "same_view w w0" by (simp add: w0_def same_view_def qids_def fun_eq_iff)
  have r0: "request_to_mem_trackers w0 = request_to_mem_trackers w" by (simp add: w0_def)
  show ?thesis
  proof (cases "request_to_mem_trackers w q")
    case (Some tr)
    with assms r0 have "tr = a" and "same_view w0 w'"
      by (auto simp: GetQueryMemTracker_def Let_def same_view_def qids_def
          simp flip: w0_def split: if_splits option.splits)
    with Some v0 show ?thesis by (auto intro: same_view_trans)
  next
    case None
    with assms r0 obtain w1 t where new: "MemTracker_new byte_limit par w0 = Some (Inr (a, w1))"
      and t: "heap w1 a = Some t"
      and w': "w' = w1\<lparr>heap := (heap w1)(a \<mapsto> t\<lparr>auto_unregister := True, query_id := q\<rparr>),
                       request_to_mem_trackers := (request_to_mem_trackers w1)(q \<mapsto> a),
                       use_count := (use_count w1)(a := 1)\<rparr>"
      by (auto simp: GetQueryMemTracker_def Let_def simp flip: w0_def split: if_splits option.splits sum.splits)
    from MemTracker_new_addr [OF new] v0 have a: "a = next_addr w" by (simp add: same_view_def)
    from MemTracker_new_view [OF new] v0 r0 a
    have "allocated q w w' \<and> request_to_mem_trackers w' = (request_to_mem_trackers w)(q \<mapsto> a)"
      by (auto simp: allocated_def same_view_def w' qids_def fun_eq_iff)
    with None a show ?thesis by simp
  qed
qed

lemma registry_ok_same_view:
  assumes "registry_ok w" and "same_view w w'"
  shows "registry_ok w'"
proof -
  from assms(2) have "qids w' = qids w"
    and "request_to_mem_trackers w' = request_to_mem_trackers w"
    and "next_addr w' = next_addr w"
    by (simp_all add: same_view_def)
  then have "registry_ok w' = registry_ok w" by (simp add: registry_ok_def)
  with assms(1) show ?thesis by simp
qed

lemma registry_okD:
  assumes "registry_ok w"
  shows "\<And>q a. request_to_mem_trackers w q = Some a \<Longrightarrow> qids w a = Some q"
    and "\<And>a q. qids w a = Some q \<Longrightarrow> q \<noteq> TUniqueId_default
           \<Longrightarrow> request_to_mem_trackers w q = Some a"
    and "\<And>a. next_addr w \<le> a \<Longrightarrow> qids w a = None"
  using assms unfolding registry_ok_def by blast+

lemma registry_ok_allocated:
  assumes ok: "registry_ok w" and al: "allocated q w w'"
    and reg: "request_to_mem_trackers w' = request_to_mem_trackers w \<and> q = TUniqueId_default
        \<or> request_to_mem_trackers w' = (request_to_mem_trackers w)(q \<mapsto> next_addr w)
          \<and> request_to_mem_trackers w q = None"
  shows "registry_ok w'"
proof -
  note r = registry_okD [OF ok]
  from al have q': "\<And>a. qids w' a = (if a = next_addr w then Some q else qids w a)"
    and n': "next_addr w' = Suc (next_addr w)" by (simp_all add: allocated_def)
  have fresh: "qids w (next_addr w) = None" by (rule r(3)) simp
  show ?thesis unfolding registry_ok_def
  proof (intro conjI allI impI)
    fix p a
    assume h: "request_to_mem_trackers w' p = Some a"
    show "qids w' a = Some p"
    proof (cases "a = next_addr w")
      case True
      have "request_to_mem_trackers w p \<noteq> Some a"
        using r(1) [of p a] fresh True by auto
      with h reg True have "p = q" by (auto split: if_splits)
      with True show ?thesis by (simp add: q')
    next
      case False
      with h reg have "request_to_mem_trackers w p = Some a" by (auto split: if_splits)
      with r(1) False show ?thesis by (simp add: q')
    qed
  next
    fix a p
    assume h: "qids w' a = Some p \<and> p \<noteq> TUniqueId_default"
    show "request_to_mem_trackers w' p = Some a"
    proof (cases "a = next_addr w")
      case True
      with h have "p = q" by (simp add: q')
      with h reg True show ?thesis by auto
    next
      case False
      with h have old: "qids w a = Some p" by (simp add: q')
      with h r(2) have old_reg: "request_to_mem_trackers w p = Some a" by simp
      with reg show ?thesis by auto
    qed
  next
    fix a
    assume "next_addr w' \<le> a"
    then have "next_addr w \<le> a" "a \<noteq> next_addr w" using n' by auto
    then show "qids w' a = None" using r(3) by (simp add: q')
  qed
qed

lemma registry_ok_destroyed:
  assumes ok: "registry_ok w" and qa: "qids w a = Some q"
    and q': "qids w' = (qids w)(a := None)"
    and reg: "request_to_mem_trackers w' = (request_to_mem_trackers w)(q := None)"
    and n': "next_addr w' = next_addr w"
  shows "registry_ok w'"
proof -
  note r = registry_okD [OF ok]
  show ?thesis unfolding registry_ok_def
  proof (intro conjI allI impI)
    fix p b
    assume "request_to_mem_trackers w' p = Some b"
    then have p: "p \<noteq> q" and old: "request_to_mem_trackers w p = Some b"
      by (auto simp: reg split: if_splits)
    from r(1) [OF old] have "qids w b = Some p" .
    with qa p have "b \<noteq> a" by auto
    with \<open>qids w b = Some p\<close> show "qids w' b = Some p" by (simp add: q')
  next
    fix b p
    assume h: "qids w' b = Some p \<and> p \<noteq> TUniqueId_default"
    then have b: "b \<noteq> a" and old: "qids w b = Some p" by (auto simp: q' split: if_splits)
    from r(2) [OF old] h have old_reg: "request_to_mem_trackers w p = Some b" by simp
    have "p \<noteq> q"
    proof
      assume "p = q"
      with qa h r(2) [of a q] have "request_to_mem_trackers w p = Some a" by simp
      with old_reg b show False by simp
    qed
    with old_reg show "request_to_mem_trackers w' p = Some b" by (simp add: reg)
  next
    fix b
    assume "next_addr w' \<le> b"
    with n' r(3) show "qids w' b = None" by (simp add: q')
  qed
qed

lemma step_registry_ok:
  assumes ok: "registry_ok w" and "step x w = Some (Inr w')"
  shows "registry_ok w'"
proof (cases x)
  case (New bl par)
  with assms(2) obtain b where "MemTracker_new bl par w = Some (Inr (b, w'))"
    by (cases "MemTracker_new bl par w") (auto simp: map_sum_def split: sum.splits)
  from MemTracker_new_view [OF this]
  have al: "allocated TUniqueId_default w w'"
    and reg: "request_to_mem_trackers w' = request_to_mem_trackers w" by simp_all
  show ?thesis by (rule registry_ok_allocated [OF ok al]) (simp add: reg)
next
  case (Delete b)
  with assms(2) have "MemTracker_destructor b w = Inr w'" by simp
  from MemTracker_destructor_view [OF this] obtain q where "qids w b = Some q"
    "qids w' = (qids w)(b := None)"
    "request_to_mem_trackers w' = (request_to_mem_trackers w)(q := None)"
    "next_addr w' = next_addr w" by blast
  with ok show ?thesis by (rule registry_ok_destroyed)
next
  case (GetRequestPool pool par)
  with assms(2) obtain r where "GetRequestPoolMemTracker pool par w = Some (Inr (r, w'))"
    by (cases "GetRequestPoolMemTracker pool par w") (auto simp: map_sum_def split: sum.splits)
  from GetRequestPoolMemTracker_view [OF this] show ?thesis
  proof
    assume "same_view w w'"
    with ok show ?thesis by (rule registry_ok_same_view)
  next
    assume h: "allocated TUniqueId_default w w'
           \<and> request_to_mem_trackers w' = request_to_mem_trackers w"
    then have al: "allocated TUniqueId_default w w'" by simp
    show ?thesis by (rule registry_ok_allocated [OF ok al]) (simp add: h)
  qed
next
  case (GetQuery pm q bl par)
  with assms(2) obtain r where "GetQueryMemTracker pm q bl par w = Some (Inr (r, w'))"
    by (cases "GetQueryMemTracker pm q bl par w") (auto simp: map_sum_def split: sum.splits)
  from GetQueryMemTracker_view [OF this] show ?thesis
  proof
    assume "request_to_mem_trackers w q = Some r \<and> same_view w w'"
    then have "same_view w w'" by simp
    with ok show ?thesis by (rule registry_ok_same_view)
  next
    assume h: "request_to_mem_trackers w q = None \<and> r = next_addr w \<and> allocated q w w'
           \<and> request_to_mem_trackers w' = (request_to_mem_trackers w)(q \<mapsto> r)"
    then have al: "allocated q w w'" by simp
    show ?thesis by (rule registry_ok_allocated [OF ok al]) (use h in simp)
  qed
next
  case (Reset b)
  with assms(2) have "shared_ptr_reset b w = Inr w'" by simp
  from shared_ptr_reset_view [OF this] show ?thesis
  proof
    assume "same_view w w'"
    with ok show ?thesis by (rule registry_ok_same_view)
  next
    assume "\<exists>q. qids w b = Some q \<and> qids w' = (qids w)(b := None)
     \<and> request_to_mem_trackers w' = (request_to_mem_trackers w)(q := None)
     \<and> next_addr w' = next_addr w"
    then obtain q where "qids w b = Some q"
      "qids w' = (qids w)(b := None)"
      "request_to_mem_trackers w' = (request_to_mem_trackers w)(q := None)"
      "next_addr w' = next_addr w" by blast
    with ok show ?thesis by (rule registry_ok_destroyed)
  qed
next
  case (Unregister b)
  with assms(2) have "UnregisterFromParent b w = Inr w'" by simp
  then have "same_view w w'" by (rule UnregisterFromParent_view)
  with ok show ?thesis by (rule registry_ok_same_view)
qed

lemma run_registry_ok:
  "registry_ok w \<Longrightarrow> run xs w = Some (Inr w') \<Longrightarrow> registry_ok w'"
proof (induction xs arbitrary: w)
  case Nil
  then show ?case by simp
next
  case (Cons x xs)
  from Cons.prems(2) obtain w1 where s: "step x w = Some (Inr w1)" and r: "run xs w1 = Some (Inr w')"
    by (auto split: option.splits sum.splits)
  from step_registry_ok [OF Cons.prems(1) s] r show ?case by (rule Cons.IH)
qed

lemma registry_ok_empty: "registry_ok empty_world"
  by (simp add: registry_ok_def empty_world_def qids_def)

text \<open>After any run from the empty process, the next address is free.\<close>

lemma run_next_addr_free:
  assumes "run xs empty_world = Some (Inr w)"
  shows "heap w (next_addr w) = None"
proof -
  have "registry_ok w" using registry_ok_empty assms by (rule run_registry_ok)
  from registry_okD(3) [OF this, of "next_addr w"] show ?thesis by (simp add: qids_def)
qed

text \<open>
  After any run from the empty process, a query id other than the default one has at
  most one live tracker, and \<open>GetQueryMemTracker\<close> for the id of a live tracker returns
  that tracker, which stays.
\<close>

lemma registry_unique_for_other_ids:
  assumes "run xs empty_world = Some (Inr w)"
    and "heap w a = Some t" and "query_id t = q" and "q \<noteq> TUniqueId_default"
    and "GetQueryMemTracker pm q bl par w = Some (Inr (b, w'))"
  shows "b = a \<and> heap w' a \<noteq> None"
proof -
  have ok: "registry_ok w" using registry_ok_empty assms(1) by (rule run_registry_ok)
  from assms(2,3) have qa: "qids w a = Some q" by (simp add: qids_def)
  with registry_okD(2) [OF ok] assms(4) have reg: "request_to_mem_trackers w q = Some a"
    by simp
  from GetQueryMemTracker_view [OF assms(5)] reg have "b = a" and "same_view w w'" by auto
  then have "qids w' a = Some q" using qa by (simp add: same_view_def)
  then have "heap w' a \<noteq> None" by (auto simp: qids_def)
  with \<open>b = a\<close> show ?thesis by simp
qed

text \<open>
  When the last owner lets go of a tracker, the tracker is gone and so is the entry of
  its id; a later \<open>GetQueryMemTracker\<close> for that id constructs a new object.
\<close>

lemma last_owner_unregisters:
  assumes "use_count w a = 1" and "heap w a = Some t" and "shared_ptr_reset a w = Inr w'"
  shows "heap w' a = None \<and> request_to_mem_trackers w' (query_id t) = None
     \<and> (GetQueryMemTracker pm (query_id t) bl par w' = Some (Inr (b, w''))
            \<longrightarrow> b = next_addr w')"
proof -
  define w0 where "w0 = w\<lparr>use_count := (use_count w)(a := 0)\<rparr>"
  from assms(1,3) have d: "MemTracker_destructor a w0 = Inr w'"
    by (simp add: shared_ptr_reset_def w0_def)
  have q0: "qids w0 a = Some (query_id t)" using assms(2) by (simp add: w0_def qids_def)
  from MemTracker_destructor_view [OF d] q0
  have reg: "request_to_mem_trackers w' (query_id t) = None" by auto
  have gone: "heap w' a = None" using d by (rule MemTracker_destructor_gone)
  have "GetQueryMemTracker pm (query_id t) bl par w' = Some (Inr (b, w''))
            \<longrightarrow> b = next_addr w'"
  proof
    assume "GetQueryMemTracker pm (query_id t) bl par w' = Some (Inr (b, w''))"
    from GetQueryMemTracker_view [OF this] reg show "b = next_addr w'" by auto
  qed
  with gone reg show ?thesis by simp
qed

lemma UnregisterFromParent_twice:
  assumes "UnregisterFromParent a w = Inr w'"
  shows "UnregisterFromParent a w' = Inl InvalidIterator \<or> UnregisterFromParent a w' = Inl DCheckFailure"
  using assms
  by (auto simp: UnregisterFromParent_def Let_def split: option.splits if_splits)

text \<open>
  C4, as stated, at a query whose tracker (at 1) is a child of the process tracker
  (at 0): the first \<open>ReleaseResources\<close> succeeds; the second, on the state the first one
  left, does not leave that state as it is: it erases \<open>end()\<close>.
\<close>

theorem ReleaseResources_second_call_faults:
  "ReleaseResources (QueryState_new \<lparr>hi = 0, lo = 7\<rparr> (Some 1))
       child_world
     = Inr ((QueryState_new \<lparr>hi = 0, lo = 7\<rparr> (Some 1))\<lparr>released_resources := True\<rparr>,
            the_world (step (Unregister 1) child_world))
   \<and> ReleaseResources ((QueryState_new \<lparr>hi = 0, lo = 7\<rparr> (Some 1))\<lparr>released_resources := True\<rparr>)
       (the_world (step (Unregister 1) child_world))
     = Inl InvalidIterator"
  by (simp add: eval_defs ReleaseResources_def QueryState_new_def)

text \<open>
  C4, amended: \<open>ReleaseResources\<close> is to be called once. A call that succeeds unregisters
  the query's tracker from its parent: the node its iterator pointed at is erased from
  the parent's \<open>child_trackers_\<close>, so that the tracker is not in that list any more when
  the iterator pointed at the tracker's own node and the list had it once. The call sets
  \<open>released_resources_\<close> and leaves the iterator at \<open>end()\<close>; a second call on the state it
  left never succeeds.
\<close>

theorem ReleaseResources_once:
  assumes "ReleaseResources qs w = Inr (qs', w')"
  shows "released_resources qs'
     \<and> (\<exists>a t pa p c. query_mem_tracker qs = Some a \<and> heap w a = Some t
            \<and> parent t = Some pa \<and> heap w pa = Some p \<and> child_tracker_it t = Some c
            \<and> c \<in> set (child_trackers p)
            \<and> map_option child_trackers (heap w' pa) = Some (remove1 c (child_trackers p))
            \<and> (c = a \<and> distinct (child_trackers p) \<longrightarrow>
                 (\<exists>p'. heap w' pa = Some p' \<and> a \<notin> set (child_trackers p')))
            \<and> map_option child_tracker_it (heap w' a) = Some None)
     \<and> (\<exists>e. ReleaseResources qs' w' = Inl e)"
proof -
  from assms obtain a where a: "query_mem_tracker qs = Some a"
    and u: "UnregisterFromParent a w = Inr w'" and qs': "qs' = qs\<lparr>released_resources := True\<rparr>"
    by (auto simp: ReleaseResources_def split: option.splits sum.splits)
  from u obtain t pa p c where t: "heap w a = Some t" and pa: "parent t = Some pa"
    and p: "heap w pa = Some p" and c: "child_tracker_it t = Some c"
    and cin: "c \<in> set (child_trackers p)"
    and w': "w' = w\<lparr>heap := (heap w)
          (pa \<mapsto> p\<lparr>child_trackers := remove1 c (child_trackers p)\<rparr>,
           a \<mapsto> (if pa = a then p\<lparr>child_trackers := remove1 c (child_trackers p)\<rparr> else t)
                  \<lparr>child_tracker_it := None\<rparr>)\<rparr>"
    by (auto simp: UnregisterFromParent_def Let_def split: option.splits if_splits)
  have kids: "map_option child_trackers (heap w' pa) = Some (remove1 c (child_trackers p))"
    by (simp add: w')
  have gone: "c = a \<and> distinct (child_trackers p) \<longrightarrow>
                 (\<exists>p'. heap w' pa = Some p' \<and> a \<notin> set (child_trackers p'))"
  proof
    assume h: "c = a \<and> distinct (child_trackers p)"
    from kids obtain p' where p': "heap w' pa = Some p'"
      and k: "child_trackers p' = remove1 c (child_trackers p)" by auto
    from h have "a \<notin> set (remove1 c (child_trackers p))" by simp
    with p' k show "\<exists>p'. heap w' pa = Some p' \<and> a \<notin> set (child_trackers p')" by simp
  qed
  have it: "map_option child_tracker_it (heap w' a) = Some None" by (simp add: w')
  from UnregisterFromParent_twice [OF u] have twice: "\<exists>e. ReleaseResources qs' w' = Inl e"
    by (auto simp: ReleaseResources_def qs' a)
  have rel: "released_resources qs'" by (simp add: qs')
  from a t pa p c cin kids gone it
  have "\<exists>a t pa p c. query_mem_tracker qs = Some a \<and> heap w a = Some t
            \<and> parent t = Some pa \<and> heap w pa = Some p \<and> child_tracker_it t = Some c
            \<and> c \<in> set (child_trackers p)
            \<and> map_option child_trackers (heap w' pa) = Some (remove1 c (child_trackers p))
            \<and> (c = a \<and> distinct (child_trackers p) \<longrightarrow>
                 (\<exists>p'. heap w' pa = Some p' \<and> a \<notin> set (child_trackers p')))
            \<and> map_option child_tracker_it (heap w' a) = Some None"
    by blast
  with rel twice show ?thesis by blast
qed

theorem ReleaseResources_once_witness:
  "ReleaseResources (QueryState_new \<lparr>hi = 0, lo = 7\<rparr> (Some 1)) child_world
     = Inr ((QueryState_new \<lparr>hi = 0, lo = 7\<rparr> (Some 1))\<lparr>released_resources := True\<rparr>,
            the_world (step (Unregister 1) child_world))
   \<and> map_option child_trackers (heap child_world 0) = Some [1]
   \<and> map_option child_tracker_it (heap child_world 1) = Some (Some 1)
   \<and> map_option child_trackers (heap (the_world (step (Unregister 1) child_world)) 0)
       = Some []
   \<and> (\<exists>e. ReleaseResources
          ((QueryState_new \<lparr>hi = 0, lo = 7\<rparr> (Some 1))\<lparr>released_resources := True\<rparr>)
          (the_world (step (Unregister 1) child_world))
        = Inl e)"
proof -
  let ?qs = "QueryState_new \<lparr>hi = 0, lo = 7\<rparr> (Some 1)"
  let ?w' = "the_world (step (Unregister 1) child_world)"
  have first: "ReleaseResources ?qs child_world
     = Inr (?qs\<lparr>released_resources := True\<rparr>, ?w')"
    by (simp add: eval_defs ReleaseResources_def QueryState_new_def)
  have q: "query_mem_tracker ?qs = Some 1" by (simp add: QueryState_new_def)
  have par: "map_option parent (heap child_world 1) = Some (Some 0)" by (simp add: eval_defs)
  have it: "map_option child_tracker_it (heap child_world 1) = Some (Some 1)"
    by (simp add: eval_defs)
  have kids: "map_option child_trackers (heap child_world 0) = Some [1]"
    by (simp add: eval_defs)
  from ReleaseResources_once [OF first] obtain a t pa p c
    where "query_mem_tracker ?qs = Some a" and "heap child_world a = Some t"
      and "parent t = Some pa" and "heap child_world pa = Some p"
      and "child_tracker_it t = Some c"
      and after: "map_option child_trackers (heap ?w' pa) = Some (remove1 c (child_trackers p))"
      and twice: "\<exists>e. ReleaseResources (?qs\<lparr>released_resources := True\<rparr>) ?w' = Inl e"
    by blast
  with q par it kids have "a = 1" "pa = 0" "c = 1" "child_trackers p = [1]" by auto
  with after have "map_option child_trackers (heap ?w' 0) = Some []" by simp
  with first kids it twice show ?thesis by blast
qed

lemma Prepare_settled:
  assumes "Prepare PrintId chk qs env = Inr (st, qs', env1)"
  shows "Prepare PrintId chk' qs' env' = Inr (st, qs', env')"
  using assms
  by (auto simp: Prepare_def Let_def MemLimitExceeded_def split: if_splits prod.splits)

lemma Prepare_calls_settled:
  assumes "Prepare PrintId chk qs env = Inr (st, qs', env1)"
  shows "Prepare_calls PrintId chks qs' env' = Inr (replicate (length chks) st, qs', env')"
proof (induction chks)
  case Nil
  show ?case by simp
next
  case (Cons y ys)
  from Prepare_settled [OF assms, of y env']
  have "Prepare PrintId y qs' env' = Inr (st, qs', env')" .
  with Cons.IH show ?case by simp
qed

text \<open>
  C5: on a \<open>QueryState\<close> that nobody prepared yet, the first \<open>Prepare\<close> runs the admission
  check once and fails exactly when the process tracker is over its limit, with the
  \<open>MemLimitExceeded\<close> status that names the query. Every later call returns the status of
  the first one and leaves the \<open>QueryState\<close> as the first call left it; it does not run
  the check: whatever the check would answer and whatever it would do to the process,
  the process is after the call as it was before it, and after any number of calls it
  is as the one check of the first call left it.
\<close>

theorem Prepare_first_outcome_is_cached:
  assumes "\<not> prepared qs" and "prepare_status qs = OK"
  shows "\<exists>st qs'. Prepare PrintId chk qs env = Inr (st, qs', snd (chk env))
           \<and> (st = OK \<longleftrightarrow> \<not> fst (chk env))
           \<and> (fst (chk env) \<longrightarrow> st = MemLimitExceeded (''Query '' @ PrintId (query_ctx_query_id qs)
                   @ '' could not start because the backend Impala daemon ''
                   @ ''is over its memory limit''))
           \<and> Prepare_calls PrintId (chk # chks) qs env
               = Inr (replicate (Suc (length chks)) st, qs', snd (chk env))
           \<and> (\<forall>chk' env'. Prepare PrintId chk' qs' env' = Inr (st, qs', env'))"
proof -
  obtain x env1 where c: "chk env = (x, env1)" by (cases "chk env")
  obtain st qs' where p: "Prepare PrintId chk qs env = Inr (st, qs', env1)"
    using assms c by (cases x) (simp_all add: Prepare_def Let_def)
  from p assms c have ok: "st = OK \<longleftrightarrow> \<not> x"
    by (auto simp: Prepare_def Let_def MemLimitExceeded_def split: if_splits)
  from p assms c have msg: "x \<longrightarrow> st = MemLimitExceeded (''Query '' @ PrintId (query_ctx_query_id qs)
                   @ '' could not start because the backend Impala daemon ''
                   @ ''is over its memory limit'')"
    by (auto simp: Prepare_def Let_def split: if_splits)
  from Prepare_calls_settled [OF p, of chks env1] p
  have calls: "Prepare_calls PrintId (chk # chks) qs env
      = Inr (replicate (Suc (length chks)) st, qs', env1)" by simp
  from Prepare_settled [OF p]
  have later: "\<forall>chk' env'. Prepare PrintId chk' qs' env' = Inr (st, qs', env')" by blast
  from p ok msg calls later c show ?thesis by auto
qed

theorem Prepare_first_outcome_is_cached_witness:
  "\<not> prepared (QueryState_new \<lparr>hi = 0, lo = 7\<rparr> None)
   \<and> prepare_status (QueryState_new \<lparr>hi = 0, lo = 7\<rparr> None) = OK
   \<and> fst (projr (Prepare_calls (\<lambda>_. ''7'')
         [\<lambda>n. (True, Suc n), \<lambda>n. (False, Suc n), \<lambda>n. (True, Suc n)]
         (QueryState_new \<lparr>hi = 0, lo = 7\<rparr> None) (0 :: nat)))
       = replicate 3 (MemLimitExceeded
           (''Query 7 could not start because the backend Impala daemon ''
            @ ''is over its memory limit''))
   \<and> snd (snd (projr (Prepare_calls (\<lambda>_. ''7'')
         [\<lambda>n. (True, Suc n), \<lambda>n. (False, Suc n), \<lambda>n. (True, Suc n)]
         (QueryState_new \<lparr>hi = 0, lo = 7\<rparr> None) (0 :: nat)))) = 1
   \<and> fst (projr (Prepare_calls (\<lambda>_. ''7'')
         [\<lambda>n. (False, Suc n), \<lambda>n. (True, Suc n), \<lambda>n. (True, Suc n)]
         (QueryState_new \<lparr>hi = 0, lo = 7\<rparr> None) (0 :: nat))) = replicate 3 OK
   \<and> snd (snd (projr (Prepare_calls (\<lambda>_. ''7'')
         [\<lambda>n. (False, Suc n), \<lambda>n. (True, Suc n), \<lambda>n. (True, Suc n)]
         (QueryState_new \<lparr>hi = 0, lo = 7\<rparr> None) (0 :: nat)))) = 1"
proof -
  let ?qs = "QueryState_new \<lparr>hi = 0, lo = 7\<rparr> None"
  let ?over = "\<lambda>n :: nat. (True, Suc n)"
  let ?under = "\<lambda>n :: nat. (False, Suc n)"
  have h1: "\<not> prepared ?qs" by (simp add: QueryState_new_def)
  have h2: "prepare_status ?qs = OK" by (simp add: QueryState_new_def)
  from Prepare_first_outcome_is_cached [OF h1 h2, of "\<lambda>_. ''7''" ?over 0 "[?under, ?over]"]
  obtain st qs' where "st = MemLimitExceeded (''Query '' @ ''7''
                   @ '' could not start because the backend Impala daemon ''
                   @ ''is over its memory limit'')"
    and "Prepare_calls (\<lambda>_. ''7'') [?over, ?under, ?over] ?qs 0 = Inr (replicate 3 st, qs', 1)"
    by (auto simp: numeral_3_eq_3)
  then have a: "fst (projr (Prepare_calls (\<lambda>_. ''7'') [?over, ?under, ?over] ?qs 0))
       = replicate 3 (MemLimitExceeded
           (''Query 7 could not start because the backend Impala daemon ''
            @ ''is over its memory limit''))"
    and b: "snd (snd (projr (Prepare_calls (\<lambda>_. ''7'') [?over, ?under, ?over] ?qs 0))) = 1"
    by simp_all
  from Prepare_first_outcome_is_cached [OF h1 h2, of "\<lambda>_. ''7''" ?under 0 "[?over, ?over]"]
  obtain st2 qs2 where "st2 = OK"
    and "Prepare_calls (\<lambda>_. ''7'') [?under, ?over, ?over] ?qs 0 = Inr (replicate 3 st2, qs2, 1)"
    by (auto simp: numeral_3_eq_3)
  then have c: "fst (projr (Prepare_calls (\<lambda>_. ''7'') [?under, ?over, ?over] ?qs 0))
       = replicate 3 OK"
    and d: "snd (snd (projr (Prepare_calls (\<lambda>_. ''7'') [?under, ?over, ?over] ?qs 0))) = 1"
    by simp_all
  from h1 h2 a b c d show ?thesis by blast
qed

section \<open>Scratch files: the results\<close>

lemmas tmp_defs = group_of_two_def two_dirs_def NewFile_def FileGroup_new_def
  FileGroup_AllocateSpace_def allocate_from_def File_AllocateSpace_def ReportIOError_def
  bytes_in_files_def is_blacklisted_def active_tmp_devices_def num_active_tmp_devices_def Let_def

lemma upt_shift: "[0 ..< Suc n] = 0 # map Suc [0 ..< n]"
  by (simp add: upt_conv_Cons map_Suc_upt del: upt_Suc)

lemma File_AllocateSpace_calls_ok:
  "File_AllocateSpace_calls (map (Pair True) rs) f mgr =
     (map (\<lambda>i. Inr (current_size f + sum_list (take i rs))) [0 ..< length rs],
      f\<lparr>current_size := current_size f + sum_list rs,
        disk_size := (if rs = [] then disk_size f else Some (current_size f + sum_list rs))\<rparr>,
      mgr)"
proof (induction rs arbitrary: f)
  case Nil
  show ?case by simp
next
  case (Cons r rs)
  define f1 where "f1 = f\<lparr>current_size := current_size f + r,
           disk_size := Some (current_size f + r)\<rparr>"
  have one: "File_AllocateSpace True r f mgr = (Inr (current_size f), f1, mgr)"
    by (simp add: File_AllocateSpace_def f1_def)
  have rest: "File_AllocateSpace_calls (map (Pair True) rs) f1 mgr =
     (map (\<lambda>i. Inr (current_size f1 + sum_list (take i rs))) [0 ..< length rs],
      f1\<lparr>current_size := current_size f1 + sum_list rs,
        disk_size := (if rs = [] then disk_size f1 else Some (current_size f1 + sum_list rs))\<rparr>,
      mgr)"
    by (rule Cons.IH)
  have offs: "map (\<lambda>i. Inr (current_size f + sum_list (take i (r # rs)))) [0 ..< length (r # rs)]
      = Inr (current_size f) # map (\<lambda>i. Inr (current_size f1 + sum_list (take i rs))) [0 ..< length rs]"
    by (simp add: upt_shift f1_def comp_def add.assoc del: upt_Suc)
  show ?case
    unfolding offs by (simp add: one rest) (simp add: f1_def add.assoc)
qed

text \<open>
  C7: on a file that has nothing allocated, calls that all succeed, with sizes
  \<open>r1, r2, ...\<close>, return the offsets \<open>0, r1, r1 + r2, ...\<close>, and after each call the size
  of the file on disk is the sum of the sizes allocated so far; a file that \<open>NewFile\<close>
  made has nothing allocated and is not on disk yet.
\<close>

theorem File_AllocateSpace_offsets_contiguous:
  "(current_size f = 0 \<longrightarrow>
      fst (File_AllocateSpace_calls (map (Pair True) rs) f mgr)
        = map (\<lambda>i. Inr (sum_list (take i rs))) [0 ..< length rs]
      \<and> (\<forall>k \<in> {1 .. length rs}.
           disk_size (fst (snd (File_AllocateSpace_calls (map (Pair True) (take k rs)) f mgr)))
             = Some (sum_list (take k rs))))
   \<and> (NewFile dev name g mgr = Some (i, g') \<longrightarrow>
        i < length (tmp_files g') \<and> current_size (tmp_files g' ! i) = 0
        \<and> disk_size (tmp_files g' ! i) = None)"
proof -
  have "current_size f = 0 \<longrightarrow>
      fst (File_AllocateSpace_calls (map (Pair True) rs) f mgr)
        = map (\<lambda>i. Inr (sum_list (take i rs))) [0 ..< length rs]
      \<and> (\<forall>k \<in> {1 .. length rs}.
           disk_size (fst (snd (File_AllocateSpace_calls (map (Pair True) (take k rs)) f mgr)))
             = Some (sum_list (take k rs)))"
    by (auto simp: File_AllocateSpace_calls_ok)
  moreover have "NewFile dev name g mgr = Some (i, g') \<longrightarrow>
        i < length (tmp_files g') \<and> current_size (tmp_files g' ! i) = 0
        \<and> disk_size (tmp_files g' ! i) = None"
    by (auto simp: NewFile_def split: if_splits)
  ultimately show ?thesis by (rule conjI)
qed

theorem File_AllocateSpace_offsets_contiguous_witness:
  "current_size (tmp_files (group_of_two None) ! 0) = 0
   \<and> fst (File_AllocateSpace_calls
         (map (Pair True) [1, 10, 1024, 4, 8388608, 8388608, 16, 10])
         (tmp_files (group_of_two None) ! 0) two_dirs)
       = [Inr 0, Inr 1, Inr 11, Inr 1035, Inr 1039, Inr 8389647, Inr 16778255, Inr 16778271]
   \<and> (3 :: nat) \<in> {1 .. length [1, 10, 1024, 4, 8388608, 8388608, 16, 10 :: int]}
   \<and> disk_size (fst (snd (File_AllocateSpace_calls
         (map (Pair True) (take 3 [1, 10, 1024, 4, 8388608, 8388608, 16, 10]))
         (tmp_files (group_of_two None) ! 0) two_dirs))) = Some 1035
   \<and> NewFile 0 ''file1'' (FileGroup_new None) two_dirs \<noteq> None
   \<and> disk_size (tmp_files (snd (the (NewFile 0 ''file1'' (FileGroup_new None) two_dirs))) ! 0)
       = None"
proof -
  let ?f = "tmp_files (group_of_two None) ! 0"
  let ?rs = "[1, 10, 1024, 4, 8388608, 8388608, 16, 10 :: int]"
  have h1: "current_size ?f = 0" by (simp add: tmp_defs)
  have h2: "(3 :: nat) \<in> {1 .. length ?rs}" by simp
  obtain g' where h3: "NewFile 0 ''file1'' (FileGroup_new None) two_dirs = Some (0, g')"
    by (simp add: tmp_defs)
  note inst = File_AllocateSpace_offsets_contiguous
      [of ?f ?rs two_dirs 0 "''file1''" "FileGroup_new None" 0 g']
  from inst h1 have "fst (File_AllocateSpace_calls (map (Pair True) ?rs) ?f two_dirs)
        = map (\<lambda>i. Inr (sum_list (take i ?rs))) [0 ..< length ?rs]" by blast
  also have "\<dots> = [Inr 0, Inr 1, Inr 11, Inr 1035, Inr 1039, Inr 8389647, Inr 16778255,
        Inr 16778271]"
    by (simp add: upt_rec)
  finally have a: "fst (File_AllocateSpace_calls (map (Pair True) ?rs) ?f two_dirs)
        = [Inr 0, Inr 1, Inr 11, Inr 1035, Inr 1039, Inr 8389647, Inr 16778255, Inr 16778271]" .
  from inst h1 h2 have "disk_size (fst (snd (File_AllocateSpace_calls
         (map (Pair True) (take 3 ?rs)) ?f two_dirs))) = Some (sum_list (take 3 ?rs))" by blast
  then have b: "disk_size (fst (snd (File_AllocateSpace_calls
         (map (Pair True) (take 3 ?rs)) ?f two_dirs))) = Some 1035"
    by (simp add: numeral_3_eq_3)
  from inst h3 have "disk_size (tmp_files g' ! 0) = None" by blast
  then have c: "disk_size (tmp_files (snd (the (NewFile 0 ''file1'' (FileGroup_new None)
      two_dirs))) ! 0) = None" by (simp add: h3)
  from h3 have d: "NewFile 0 ''file1'' (FileGroup_new None) two_dirs \<noteq> None" by simp
  from h1 a h2 b d c show ?thesis by blast
qed

text \<open>
  C8: \<open>ReportIOError\<close> records the error on the file and changes nothing else: the file
  is as blacklisted as before (never), the manager and so the active devices and their
  number are the same, an allocation on the same file that the file system carries out
  still succeeds at the file's mark, and \<open>NewFile\<close> answers as before, so a new file can
  still be created on the file's device when that device was active.
\<close>

theorem ReportIOError_keeps_file_and_device_usable:
  assumes "ReportIOError msg f mgr = (f', mgr')"
  shows "io_error f' \<noteq> None
     \<and> is_blacklisted f' = is_blacklisted f
     \<and> mgr' = mgr
     \<and> num_active_tmp_devices mgr' = num_active_tmp_devices mgr
     \<and> active_tmp_devices mgr' = active_tmp_devices mgr
     \<and> fst (File_AllocateSpace True n f' mgr') = Inr (current_size f)
     \<and> NewFile dev name g mgr' = NewFile dev name g mgr
     \<and> (device_id f < length (tmp_dirs mgr) \<and> active (tmp_dirs mgr ! device_id f)
          \<longrightarrow> NewFile (device_id f') name g mgr' \<noteq> None)"
  using assms
  by (auto simp: ReportIOError_def File_AllocateSpace_def is_blacklisted_def NewFile_def
      split: option.splits)

theorem ReportIOError_keeps_file_and_device_usable_witness:
  "ReportIOError ''A fake error'' (tmp_files (group_of_two None) ! 1) two_dirs
     = ((tmp_files (group_of_two None) ! 1)\<lparr>io_error := Some ''A fake error''\<rparr>, two_dirs)
   \<and> device_id (tmp_files (group_of_two None) ! 1) < length (tmp_dirs two_dirs)
   \<and> active (tmp_dirs two_dirs ! device_id (tmp_files (group_of_two None) ! 1))
   \<and> \<not> is_blacklisted ((tmp_files (group_of_two None) ! 1)\<lparr>io_error := Some ''A fake error''\<rparr>)
   \<and> num_active_tmp_devices two_dirs = 2
   \<and> fst (File_AllocateSpace True 128
        ((tmp_files (group_of_two None) ! 1)\<lparr>io_error := Some ''A fake error''\<rparr>) two_dirs)
       = Inr 0
   \<and> NewFile 1 ''file3'' (group_of_two None) two_dirs \<noteq> None"
proof -
  let ?f = "tmp_files (group_of_two None) ! 1"
  have r: "ReportIOError ''A fake error'' ?f two_dirs
     = (?f\<lparr>io_error := Some ''A fake error''\<rparr>, two_dirs)" by (simp add: tmp_defs)
  have h1: "device_id ?f < length (tmp_dirs two_dirs)" by (simp add: tmp_defs)
  have h2: "active (tmp_dirs two_dirs ! device_id ?f)" by (simp add: tmp_defs)
  have b: "\<not> is_blacklisted ?f" by (simp add: tmp_defs)
  have n: "num_active_tmp_devices two_dirs = 2" by (simp add: tmp_defs upt_rec)
  have d: "device_id ?f = 1" and c: "current_size ?f = 0" by (simp_all add: tmp_defs)
  from ReportIOError_keeps_file_and_device_usable
         [OF r, of 128 1 "''file3''" "group_of_two None"] h1 h2 b d c
  have "\<not> is_blacklisted (?f\<lparr>io_error := Some ''A fake error''\<rparr>)
      \<and> fst (File_AllocateSpace True 128 (?f\<lparr>io_error := Some ''A fake error''\<rparr>) two_dirs)
          = Inr 0
      \<and> NewFile 1 ''file3'' (group_of_two None) two_dirs \<noteq> None"
    by simp
  with r h1 h2 n show ?thesis by blast
qed

lemma sum_list_map_update:
  fixes h :: "'a \<Rightarrow> int"
  shows "i < length xs \<Longrightarrow> sum_list (map h (xs[i := y])) = sum_list (map h xs) - h (xs ! i) + h y"
  by (induction xs arbitrary: i) (auto split: nat.splits)

lemma allocate_from_Inr:
  assumes "allocate_from io_ok n i g mgr = (Inr x, g', mgr')"
  shows "current_bytes_allocated g' = current_bytes_allocated g + n
     \<and> bytes_in_files g' = bytes_in_files g + n \<and> bytes_limit g' = bytes_limit g
     \<and> next_allocation_index g' = next_allocation_index g"
  using assms
  by (auto simp: allocate_from_def File_AllocateSpace_def bytes_in_files_def sum_list_map_update
      ReportIOError_def split: if_splits prod.splits sum.splits option.splits)

lemma allocate_from_Inl:
  assumes "allocate_from io_ok n i g mgr = (Inl e, g', mgr')"
  shows "current_bytes_allocated g' = current_bytes_allocated g
     \<and> bytes_in_files g' = bytes_in_files g \<and> bytes_limit g' = bytes_limit g
     \<and> next_allocation_index g' = next_allocation_index g \<and> e = IO_ERROR"
  using assms
  by (auto simp: allocate_from_def File_AllocateSpace_def bytes_in_files_def sum_list_map_update
      ReportIOError_def split: if_splits prod.splits sum.splits option.splits)

lemma FileGroup_AllocateSpace_rejects:
  assumes "bytes_limit g = Some lim" and "lim < current_bytes_allocated g + n"
  shows "\<exists>g'. FileGroup_AllocateSpace io_ok n g mgr = (Inl SCRATCH_LIMIT_EXCEEDED, g', mgr)
     \<and> tmp_files g' = tmp_files g \<and> current_bytes_allocated g' = current_bytes_allocated g
     \<and> bytes_limit g' = bytes_limit g"
  using assms by (simp add: FileGroup_AllocateSpace_def Let_def)

lemma FileGroup_AllocateSpace_Inr:
  assumes "FileGroup_AllocateSpace io_ok n g mgr = (Inr x, g', mgr')"
  shows "current_bytes_allocated g' = current_bytes_allocated g + n
     \<and> bytes_in_files g' = bytes_in_files g + n \<and> bytes_limit g' = bytes_limit g
     \<and> (\<forall>lim. bytes_limit g = Some lim \<longrightarrow> current_bytes_allocated g + n \<le> lim)"
proof -
  define g1 where "g1 = g\<lparr>next_allocation_index :=
      (if tmp_files g = [] then 0 else (next_allocation_index g + 1) mod length (tmp_files g))\<rparr>"
  from assms have a: "allocate_from io_ok n (next_allocation_index g) g1 mgr = (Inr x, g', mgr')"
    and l: "\<forall>lim. bytes_limit g = Some lim \<longrightarrow> current_bytes_allocated g + n \<le> lim"
    by (auto simp: FileGroup_AllocateSpace_def Let_def g1_def split: option.splits if_splits)
  from allocate_from_Inr [OF a] l show ?thesis by (simp add: g1_def bytes_in_files_def)
qed

lemma FileGroup_AllocateSpace_Inl:
  assumes "FileGroup_AllocateSpace io_ok n g mgr = (Inl e, g', mgr')"
  shows "current_bytes_allocated g' = current_bytes_allocated g
     \<and> bytes_in_files g' = bytes_in_files g \<and> bytes_limit g' = bytes_limit g"
proof -
  define g1 where "g1 = g\<lparr>next_allocation_index :=
      (if tmp_files g = [] then 0 else (next_allocation_index g + 1) mod length (tmp_files g))\<rparr>"
  from assms have "g' = g1 \<or> allocate_from io_ok n (next_allocation_index g) g1 mgr = (Inl e, g', mgr')"
    by (auto simp: FileGroup_AllocateSpace_def Let_def g1_def split: option.splits if_splits)
  then show ?thesis
  proof
    assume "g' = g1"
    then show ?thesis by (simp add: g1_def bytes_in_files_def)
  next
    assume "allocate_from io_ok n (next_allocation_index g) g1 mgr = (Inl e, g', mgr')"
    from allocate_from_Inl [OF this] show ?thesis by (simp add: g1_def bytes_in_files_def)
  qed
qed

lemma FileGroup_AllocateSpace_calls_total:
  assumes "FileGroup_AllocateSpace_calls reqs g mgr = (rs, g', mgr')"
  shows "current_bytes_allocated g' = current_bytes_allocated g + granted reqs rs
     \<and> bytes_in_files g' = bytes_in_files g + granted reqs rs
     \<and> bytes_limit g' = bytes_limit g
     \<and> (\<forall>lim. bytes_limit g = Some lim \<and> current_bytes_allocated g \<le> lim
           \<longrightarrow> current_bytes_allocated g' \<le> lim)"
  using assms
proof (induction reqs arbitrary: g mgr rs)
  case Nil
  then show ?case by simp
next
  case (Cons q reqs)
  obtain io_ok n where q: "q = (io_ok, n)" by (cases q)
  obtain r g1 mgr1 where one: "FileGroup_AllocateSpace io_ok n g mgr = (r, g1, mgr1)"
    by (cases "FileGroup_AllocateSpace io_ok n g mgr")
  obtain rs1 where rest: "FileGroup_AllocateSpace_calls reqs g1 mgr1 = (rs1, g', mgr')"
    and rs: "rs = r # rs1"
    using Cons.prems q one by (auto split: prod.splits)
  note ih = Cons.IH [OF rest]
  have step: "current_bytes_allocated g1 = current_bytes_allocated g + granted [q] [r]
     \<and> bytes_in_files g1 = bytes_in_files g + granted [q] [r]
     \<and> bytes_limit g1 = bytes_limit g
     \<and> (\<forall>lim. bytes_limit g = Some lim \<and> current_bytes_allocated g \<le> lim
           \<longrightarrow> current_bytes_allocated g1 \<le> lim)"
  proof (cases r)
    case (Inl e)
    from FileGroup_AllocateSpace_Inl [OF one [unfolded Inl]] show ?thesis
      by (simp add: q Inl)
  next
    case (Inr x)
    from FileGroup_AllocateSpace_Inr [OF one [unfolded Inr]] show ?thesis
      by (simp add: q Inr)
  qed
  have g: "granted (q # reqs) rs = granted [q] [r] + granted reqs rs1"
    by (cases r) (simp_all add: q rs)
  have "current_bytes_allocated g' = current_bytes_allocated g + granted (q # reqs) rs"
    using step ih g by simp
  moreover have "bytes_in_files g' = bytes_in_files g + granted (q # reqs) rs"
    using step ih g by simp
  moreover have "bytes_limit g' = bytes_limit g" using step ih by simp
  moreover have "\<forall>lim. bytes_limit g = Some lim \<and> current_bytes_allocated g \<le> lim
           \<longrightarrow> current_bytes_allocated g' \<le> lim"
  proof (intro allI impI)
    fix lim
    assume a: "bytes_limit g = Some lim \<and> current_bytes_allocated g \<le> lim"
    with step have "bytes_limit g1 = Some lim \<and> current_bytes_allocated g1 \<le> lim" by simp
    with ih show "current_bytes_allocated g' \<le> lim" by blast
  qed
  ultimately show ?case by blast
qed

text \<open>
  What \<open>TestScratchLimit\<close> asserts, on the model: with limit 100 and two files, two
  requests of 101 fail, 25 goes to the first file at offset 0, two requests of 76 fail,
  75 goes to the second file at offset 0, and a request of 1 fails.
\<close>

lemma TestScratchLimit_on_the_model:
  "fst (FileGroup_AllocateSpace_calls
        [(True, 101), (True, 101), (True, 25), (True, 76), (True, 76), (True, 75), (True, 1)]
          (group_of_two (Some 100)) two_dirs)
     = [Inl SCRATCH_LIMIT_EXCEEDED, Inl SCRATCH_LIMIT_EXCEEDED, Inr (0, 0),
        Inl SCRATCH_LIMIT_EXCEEDED, Inl SCRATCH_LIMIT_EXCEEDED, Inr (1, 0),
        Inl SCRATCH_LIMIT_EXCEEDED]"
  by (simp add: tmp_defs)

text \<open>
  C2: in a group with aggregate limit \<open>lim\<close> that starts with nothing allocated, after
  any sequence of requests the bytes granted are the bytes the counter shows and the
  bytes the files hold, and they are at most \<open>lim\<close>; in any state of such a group a
  request that would take the counter past \<open>lim\<close> fails with \<open>SCRATCH_LIMIT_EXCEEDED\<close>
  and leaves every file and the counter as they were; and with limit 100, a request of
  25 succeeds at offset 0, one of 76 then fails with \<open>SCRATCH_LIMIT_EXCEEDED\<close>, one of 75
  succeeds, and one of 1 fails with \<open>SCRATCH_LIMIT_EXCEEDED\<close>.
\<close>

theorem FileGroup_limit_never_exceeded:
  "(0 \<le> lim \<and> bytes_limit g = Some lim \<and> current_bytes_allocated g = 0
      \<and> bytes_in_files g = 0
      \<and> FileGroup_AllocateSpace_calls reqs g mgr = (rs, g', mgr') \<longrightarrow>
        granted reqs rs = current_bytes_allocated g'
        \<and> granted reqs rs = bytes_in_files g' \<and> granted reqs rs \<le> lim)
   \<and> (bytes_limit h = Some lim \<and> lim < current_bytes_allocated h + n \<longrightarrow>
        (\<exists>h'. FileGroup_AllocateSpace io_ok n h mgr = (Inl SCRATCH_LIMIT_EXCEEDED, h', mgr)
           \<and> tmp_files h' = tmp_files h
           \<and> current_bytes_allocated h' = current_bytes_allocated h))
   \<and> fst (FileGroup_AllocateSpace_calls [(True, 25), (True, 76), (True, 75), (True, 1)]
          (group_of_two (Some 100)) two_dirs)
       = [Inr (0, 0), Inl SCRATCH_LIMIT_EXCEEDED, Inr (0, 25), Inl SCRATCH_LIMIT_EXCEEDED]"
proof -
  have total: "0 \<le> lim \<and> bytes_limit g = Some lim \<and> current_bytes_allocated g = 0
      \<and> bytes_in_files g = 0
      \<and> FileGroup_AllocateSpace_calls reqs g mgr = (rs, g', mgr') \<longrightarrow>
        granted reqs rs = current_bytes_allocated g'
        \<and> granted reqs rs = bytes_in_files g' \<and> granted reqs rs \<le> lim"
  proof
    assume h: "0 \<le> lim \<and> bytes_limit g = Some lim \<and> current_bytes_allocated g = 0
      \<and> bytes_in_files g = 0
      \<and> FileGroup_AllocateSpace_calls reqs g mgr = (rs, g', mgr')"
    then have calls: "FileGroup_AllocateSpace_calls reqs g mgr = (rs, g', mgr')" by simp
    from FileGroup_AllocateSpace_calls_total [OF calls] h
    have "current_bytes_allocated g' = granted reqs rs"
      and "bytes_in_files g' = granted reqs rs"
      and "current_bytes_allocated g' \<le> lim"
      by simp_all
    then show "granted reqs rs = current_bytes_allocated g'
        \<and> granted reqs rs = bytes_in_files g' \<and> granted reqs rs \<le> lim" by simp
  qed
  have rejects: "bytes_limit h = Some lim \<and> lim < current_bytes_allocated h + n \<longrightarrow>
        (\<exists>h'. FileGroup_AllocateSpace io_ok n h mgr = (Inl SCRATCH_LIMIT_EXCEEDED, h', mgr)
           \<and> tmp_files h' = tmp_files h
           \<and> current_bytes_allocated h' = current_bytes_allocated h)"
    using FileGroup_AllocateSpace_rejects [of h lim n io_ok mgr] by blast
  have scenario: "fst (FileGroup_AllocateSpace_calls
          [(True, 25), (True, 76), (True, 75), (True, 1)] (group_of_two (Some 100)) two_dirs)
       = [Inr (0, 0), Inl SCRATCH_LIMIT_EXCEEDED, Inr (0, 25), Inl SCRATCH_LIMIT_EXCEEDED]"
    by (simp add: tmp_defs)
  show ?thesis by (rule conjI [OF total conjI [OF rejects scenario]])
qed

theorem FileGroup_limit_never_exceeded_witness:
  "(0 :: int) \<le> 100 \<and> bytes_limit (group_of_two (Some 100)) = Some 100
   \<and> current_bytes_allocated (group_of_two (Some 100)) = 0
   \<and> bytes_in_files (group_of_two (Some 100)) = 0
   \<and> granted [(True, 25), (False, 30), (True, 76), (True, 75), (True, 1)]
        (fst (FileGroup_AllocateSpace_calls
           [(True, 25), (False, 30), (True, 76), (True, 75), (True, 1)]
           (group_of_two (Some 100)) two_dirs)) = 100
   \<and> bytes_in_files (fst (snd (FileGroup_AllocateSpace_calls
           [(True, 25), (False, 30), (True, 76), (True, 75), (True, 1)]
           (group_of_two (Some 100)) two_dirs))) = 100
   \<and> bytes_limit ((group_of_two (Some 100))\<lparr>current_bytes_allocated := 25\<rparr>) = Some 100
   \<and> (100 :: int) < current_bytes_allocated
         ((group_of_two (Some 100))\<lparr>current_bytes_allocated := 25\<rparr>) + 76
   \<and> fst (FileGroup_AllocateSpace True 76
         ((group_of_two (Some 100))\<lparr>current_bytes_allocated := 25\<rparr>) two_dirs)
       = Inl SCRATCH_LIMIT_EXCEEDED"
proof -
  let ?g = "group_of_two (Some 100)"
  let ?reqs = "[(True, 25), (False, 30), (True, 76), (True, 75), (True, 1)]"
  let ?h = "?g\<lparr>current_bytes_allocated := 25\<rparr>"
  have h1: "(0 :: int) \<le> 100" by simp
  have h2: "bytes_limit ?g = Some 100" by (simp add: tmp_defs)
  have h3: "current_bytes_allocated ?g = 0" by (simp add: tmp_defs)
  have h4: "bytes_in_files ?g = 0" by (simp add: tmp_defs)
  obtain rs g' mgr' where calls: "FileGroup_AllocateSpace_calls ?reqs ?g two_dirs = (rs, g', mgr')"
    by (cases "FileGroup_AllocateSpace_calls ?reqs ?g two_dirs")
  have k1: "bytes_limit ?h = Some 100" by (simp add: tmp_defs)
  have k2: "(100 :: int) < current_bytes_allocated ?h + 76" by simp
  note inst = FileGroup_limit_never_exceeded
      [of 100 ?g ?reqs two_dirs rs g' mgr' ?h 76 True]
  from inst h1 h2 h3 h4 calls
  have "granted ?reqs rs = bytes_in_files g'" by blast
  moreover have "granted ?reqs rs = 100" using calls by (auto simp: tmp_defs)
  ultimately have a: "granted ?reqs (fst (FileGroup_AllocateSpace_calls ?reqs ?g two_dirs)) = 100"
    and b: "bytes_in_files (fst (snd (FileGroup_AllocateSpace_calls ?reqs ?g two_dirs))) = 100"
    using calls by simp_all
  from inst k1 k2 have c: "fst (FileGroup_AllocateSpace True 76 ?h two_dirs)
      = Inl SCRATCH_LIMIT_EXCEEDED" by auto
  from h1 h2 h3 h4 a b k1 k2 c show ?thesis by blast
qed

end
